theory Spec2Isabelle
  imports Complex_Main "HOL-Library.Word" "HOL-Library.Multiset"
begin

section \<open>The streaming session hook \<open>useAudioStream\<close>\<close>

text \<open>
  A shallow embedding of \<^verbatim>\<open>src/app/src/hooks/useAudioStream.ts\<close> and of the types it
  uses from \<^verbatim>\<open>src/app/src/types.ts\<close>. The hook is a set of callbacks over React state
  and refs; every callback is a function from the hook's state to the next state. An
  \<^verbatim>\<open>await\<close> ends a callback: what follows it is a further callback, run when the
  platform reports that the awaited operation has finished. Values the platform supplies
  (clock readings, the outcome of a device request, decoded sample windows) are arguments.
\<close>

subsection \<open>Types of \<^verbatim>\<open>types.ts\<close>\<close>

datatype Emotion = HAPPY | SAD | NEUTRAL | THINKING | SURPRISED | ANGRY

datatype AppState = idle | listening | processing | speaking

datatype Role = user | ai

text \<open>A JavaScript string is a \<open>string\<close>; text outside ASCII is its UTF-8 bytes.\<close>

record Message =
  m_id :: string
  m_type :: Role
  m_text :: string
  m_timestamp :: string
  m_isTemporary :: "bool option"
  m_audioData :: "string option"

datatype MessageType =
    transcript_t | ai_response_t | ai_stream_chunk_t | ai_processing_t | audio_t
  | recording_started_t | recording_stopped_t | error_t | stt_error_t | user_speaking_t
  | other_t string

text \<open>An optional field of a frame is \<open>None\<close> when the JSON object does not have it.\<close>

record WebSocketMessage =
  w_type :: MessageType
  w_text :: "string option"
  w_isFinal :: "bool option"
  w_emotion :: "Emotion option"
  w_data :: "string option"
  w_message :: "string option"
  w_isProcessing :: "bool option"

text \<open>JavaScript truthiness of an optional string and of an optional boolean.\<close>

definition truthy :: "string option \<Rightarrow> bool" where
  "truthy v = (case v of None \<Rightarrow> False | Some t \<Rightarrow> t \<noteq> [])"

definition truthy_bool :: "bool option \<Rightarrow> bool" where
  "truthy_bool v = (case v of None \<Rightarrow> False | Some b \<Rightarrow> b)"

subsection \<open>Strings, blobs and data URLs\<close>

type_synonym blob = "8 word list"

text \<open>\<^verbatim>\<open>new Blob(parts)\<close>: the parts' bytes, one after the other.\<close>

definition Blob :: "blob list \<Rightarrow> blob" where
  "Blob parts = concat parts"

text \<open>\<^verbatim>\<open>Array.prototype.join\<close> on strings.\<close>

fun join :: "string \<Rightarrow> string list \<Rightarrow> string" where
  "join sep [] = []"
| "join sep [x] = x"
| "join sep (x # y # ys) = x @ sep @ join sep (y # ys)"

text \<open>\<^verbatim>\<open>String.prototype.split\<close> with a one-character separator.\<close>

fun split :: "char \<Rightarrow> string \<Rightarrow> string list" where
  "split c [] = [[]]"
| "split c (x # xs) =
     (if x = c then [] # split c xs
      else (case split c xs of [] \<Rightarrow> [[x]] | p # ps \<Rightarrow> (x # p) # ps))"

text \<open>Reading index \<open>i\<close> of an array: \<^verbatim>\<open>undefined\<close> out of range.\<close>

fun at_index :: "'a list \<Rightarrow> nat \<Rightarrow> 'a option" where
  "at_index [] i = None"
| "at_index (x # xs) 0 = Some x"
| "at_index (x # xs) (Suc i) = at_index xs i"

text \<open>
  The platform's base64 (RFC 4648, with padding), as \<^verbatim>\<open>FileReader.readAsDataURL\<close>
  produces it.
\<close>

definition b64_alphabet :: string where
  "b64_alphabet = ''ABCDEFGHIJKLMNOPQRSTUVWXYZabcdefghijklmnopqrstuvwxyz0123456789+/''"

definition b64_digit :: "nat \<Rightarrow> char" where
  "b64_digit n = b64_alphabet ! (n mod 64)"

fun base64 :: "blob \<Rightarrow> string" where
  "base64 [] = []"
| "base64 [a] =
     [b64_digit (unat a div 4), b64_digit (unat a mod 4 * 16), CHR ''='', CHR ''='']"
| "base64 [a, b] =
     [b64_digit (unat a div 4), b64_digit (unat a mod 4 * 16 + unat b div 16),
      b64_digit (unat b mod 16 * 4), CHR ''='']"
| "base64 (a # b # c # rest) =
     [b64_digit (unat a div 4), b64_digit (unat a mod 4 * 16 + unat b div 16),
      b64_digit (unat b mod 16 * 4 + unat c div 64), b64_digit (unat c mod 64)]
     @ base64 rest"

text \<open>
  \<^verbatim>\<open>window.atob\<close>, the forgiving base64 decoding of the HTML standard, followed by the
  loop of lines 185 to 190 that copies the character codes of the binary string into
  bytes: ASCII whitespace is removed, one or two padding characters are removed when the
  length is a multiple of four, a length of one above a multiple of four or a character
  outside the alphabet makes it throw (\<open>None\<close>), and the bits left over at the end are
  dropped.
\<close>

definition ascii_whitespace :: "char \<Rightarrow> bool" where
  "ascii_whitespace c =
     (c = CHR 0x09 \<or> c = CHR 0x0A \<or> c = CHR 0x0C \<or> c = CHR 0x0D \<or> c = CHR 0x20)"

fun index_of :: "'a \<Rightarrow> 'a list \<Rightarrow> nat option" where
  "index_of x [] = None"
| "index_of x (y # ys) = (if x = y then Some 0 else map_option Suc (index_of x ys))"

definition b64_value :: "char \<Rightarrow> nat option" where
  "b64_value c = index_of c b64_alphabet"

fun sextets_to_bytes :: "nat list \<Rightarrow> blob" where
  "sextets_to_bytes (a # b # c # d # rest) =
     [of_nat (a * 4 + b div 16), of_nat (b mod 16 * 16 + c div 4), of_nat (c mod 4 * 64 + d)]
     @ sextets_to_bytes rest"
| "sextets_to_bytes [a, b, c] = [of_nat (a * 4 + b div 16), of_nat (b mod 16 * 16 + c div 4)]"
| "sextets_to_bytes [a, b] = [of_nat (a * 4 + b div 16)]"
| "sextets_to_bytes [a] = []"
| "sextets_to_bytes [] = []"

definition strip_padding :: "string \<Rightarrow> string" where
  "strip_padding d =
     (if length d mod 4 = 0 then
        (case rev d of
           x # y # r \<Rightarrow>
             if x = CHR ''='' \<and> y = CHR ''='' then rev r
             else if x = CHR ''='' then rev (y # r) else d
         | _ \<Rightarrow> d)
      else d)"

definition window_atob :: "string \<Rightarrow> blob option" where
  "window_atob d =
     (let d1 = strip_padding (filter (\<lambda>c. \<not> ascii_whitespace c) d) in
      if length d1 mod 4 = 1 then None
      else if list_ex (\<lambda>c. b64_value c = None) d1 then None
      else Some (sextets_to_bytes (map (\<lambda>c. the (b64_value c)) d1)))"

definition readAsDataURL :: "string \<Rightarrow> blob \<Rightarrow> string" where
  "readAsDataURL mime b = ''data:'' @ mime @ '';base64,'' @ base64 b"

text \<open>\<^verbatim>\<open>(reader.result as string).split(',')[1]\<close> for a blob of type \<^verbatim>\<open>audio/webm\<close>.\<close>

definition encodeBlob :: "blob \<Rightarrow> string option" where
  "encodeBlob b = at_index (split (CHR '','') (readAsDataURL ''audio/webm'' b)) 1"

subsection \<open>User-visible error texts\<close>

text \<open>The four Vietnamese literals of the hook, as UTF-8 bytes.\<close>

definition ERR_CONNECT :: string where
  "ERR_CONNECT = ''K'' @ [CHR 0xE1, CHR 0xBA, CHR 0xBF] @ ''t n'' @ [CHR 0xE1, CHR 0xBB, CHR 0x91]
     @ ''i th'' @ [CHR 0xE1, CHR 0xBA, CHR 0xA5] @ ''t b'' @ [CHR 0xE1, CHR 0xBA, CHR 0xA1]
     @ ''i. '' @ [CHR 0xC4, CHR 0x90] @ ''ang th'' @ [CHR 0xE1, CHR 0xBB, CHR 0xAD] @ '' l''
     @ [CHR 0xE1, CHR 0xBA, CHR 0xA1] @ ''i...''"

definition ERR_GENERIC :: string where
  "ERR_GENERIC = ''C'' @ [CHR 0xC3, CHR 0xB3] @ '' l'' @ [CHR 0xE1, CHR 0xBB, CHR 0x97] @ ''i x''
     @ [CHR 0xE1, CHR 0xBA, CHR 0xA3] @ ''y ra''"

definition ERR_MICROPHONE :: string where
  "ERR_MICROPHONE = ''Kh'' @ [CHR 0xC3, CHR 0xB4] @ ''ng th'' @ [CHR 0xE1, CHR 0xBB, CHR 0x83]
     @ '' truy c'' @ [CHR 0xE1, CHR 0xBA, CHR 0xAD] @ ''p microphone''"


subsection \<open>Platform objects and values\<close>

datatype ReadyState = CONNECTING | OPEN | CLOSING | CLOSED

datatype ContextState = suspended | running

datatype RecordingState = inactive | recording | paused

text \<open>
  A \<^verbatim>\<open>MediaRecorder\<close> made by \<^verbatim>\<open>_startMediaRecorder\<close>, with the array \<^verbatim>\<open>chunks\<close>
  that its two handlers close over.
\<close>

record MediaRecorder =
  r_state :: RecordingState
  r_chunks :: "blob list"

text \<open>A \<^verbatim>\<open>FileReader\<close> that is reading a blob, with what its \<^verbatim>\<open>onloadend\<close> does.\<close>

datatype ReaderTask = SendAudio blob | AttachUserAudio string blob

text \<open>Frames passed to \<^verbatim>\<open>socket.send\<close>: \<^verbatim>\<open>{type: 'audio_complete', data, mimeType}\<close>.\<close>

datatype Frame = audio_complete "string option" string

text \<open>A call of \<^verbatim>\<open>playNextInQueue\<close> that is suspended at one of its two awaits.\<close>

datatype PlayTask = AwaitResume | AwaitDecode blob

text \<open>What reaches the audio output and the console during playback.\<close>

datatype PlayEvent = started blob | decode_error blob | ended blob

text \<open>\<^verbatim>\<open>Date.now()\<close> and the locale time string, read when a message is created.\<close>

record Clock =
  date_now :: nat
  locale_time :: string

text \<open>
  What the browser offers: the state in which a new \<^verbatim>\<open>AudioContext\<close> starts (\<open>None\<close>:
  there is no constructor), whether \<^verbatim>\<open>new MediaRecorder\<close> accepts the mime type, and
  \<^verbatim>\<open>window.atob\<close> (\<open>None\<close>: it throws).
\<close>

record Platform =
  newAudioContext :: "ContextState option"
  recorderSupported :: bool
  atob :: "string \<Rightarrow> blob option"

datatype MicResult = granted | denied

text \<open>\<^verbatim>\<open>Number.prototype.toString\<close> on a non-negative integer.\<close>

fun toString :: "nat \<Rightarrow> string" where
  "toString n =
     (if n < 10 then [''0123456789'' ! n]
      else toString (n div 10) @ [''0123456789'' ! (n mod 10)])"

subsection \<open>The state of the hook\<close>

text \<open>
  The React state variables and the refs, under the names of the source, followed by the
  platform objects the hook has created and the operations it is waiting for.
  \<open>mediaRecorderRef\<close> is an index into \<open>recorders\<close>; \<open>inputAnalyser\<close> and
  \<open>outputAnalyser\<close> hold the number of the analyser node; \<open>mediaStreamRef\<close> is true
  while the ref holds a stream; \<open>reconnectTimeoutRef\<close> holds the delay of the timer whose
  handle is in the ref; \<open>socketRef\<close> holds the \<^verbatim>\<open>readyState\<close> of the socket.
  \<open>silenceInterval\<close> says whether the interval of the silence effect is installed, and
  \<open>silenceDeps\<close> holds the dependencies the effect last ran with.
\<close>

record Session =
  isConnected :: bool
  appState :: AppState
  transcript :: string
  emotion :: Emotion
  messages :: "Message list"
  error :: "string option"
  streamingAiText :: string
  isAiProcessing :: bool
  isConversationActive :: bool
  inputAnalyser :: "nat option"
  outputAnalyser :: "nat option"
  socketRef :: "ReadyState option"
  reconnectTimeoutRef :: "nat option"
  reconnectAttemptRef :: nat
  mediaRecorderRef :: "nat option"
  audioContextRef :: "ContextState option"
  audioQueueRef :: "blob list"
  isPlayingRef :: bool
  mediaStreamRef :: bool
  isConversationActiveRef :: bool
  lastVoiceActivityAtRef :: "real option"
  didAutoStopSegmentRef :: bool
  currentAiAudioChunksRef :: "string list"
  userRecordedAudioRef :: "blob list"
  isConnectingRef :: bool
  appStateRef :: AppState
  isMounted :: bool
  recorders :: "MediaRecorder list"
  readers :: "ReaderTask list"
  sent :: "Frame list"
  micRequests :: nat
  captureResumes :: nat
  playTasks :: "PlayTask list"
  sources :: "blob list"
  audioOut :: "PlayEvent list"
  nodes :: nat
  silenceInterval :: bool
  silenceDeps :: "AppState \<times> nat option"

definition initial :: Session where
  "initial = \<lparr>
     isConnected = False, appState = idle, transcript = [], emotion = NEUTRAL,
     messages = [], error = None, streamingAiText = [], isAiProcessing = False,
     isConversationActive = False, inputAnalyser = None, outputAnalyser = None,
     socketRef = None, reconnectTimeoutRef = None, reconnectAttemptRef = 0,
     mediaRecorderRef = None, audioContextRef = None, audioQueueRef = [],
     isPlayingRef = False, mediaStreamRef = False, isConversationActiveRef = False,
     lastVoiceActivityAtRef = None, didAutoStopSegmentRef = False,
     currentAiAudioChunksRef = [], userRecordedAudioRef = [], isConnectingRef = False,
     appStateRef = idle, isMounted = True, recorders = [], readers = [], sent = [],
     micRequests = 0, captureResumes = 0, playTasks = [], sources = [], audioOut = [],
     nodes = 0, silenceInterval = False, silenceDeps = (idle, None) \<rparr>"


subsection \<open>Messages\<close>

text \<open>\<^verbatim>\<open>addMessage\<close> (lines 215 to 226).\<close>

definition addMessage :: "Clock \<Rightarrow> Role \<Rightarrow> string \<Rightarrow> string option \<Rightarrow> Session \<Rightarrow> Session" where
  "addMessage clk ty txt audioData s =
     s\<lparr>messages := messages s @
         [\<lparr>m_id = toString (date_now clk), m_type = ty, m_text = txt,
           m_timestamp = locale_time clk, m_isTemporary = None, m_audioData = audioData\<rparr>]\<rparr>"

text \<open>
  The updater that \<^verbatim>\<open>playNextInQueue\<close> passes to \<^verbatim>\<open>setMessages\<close> (lines 417 to 429):
  it looks at the last message only.
\<close>

definition backfill :: "string \<Rightarrow> Message list \<Rightarrow> Message list" where
  "backfill combinedAudio prev =
     (if prev = [] then prev
      else let lastMsg = last prev in
        if m_type lastMsg = ai then
          (if truthy (m_audioData lastMsg) then prev
           else prev[length prev - 1 := lastMsg\<lparr>m_audioData := Some combinedAudio\<rparr>])
        else prev)"

subsection \<open>Recording\<close>

text \<open>\<^verbatim>\<open>mediaRecorderRef.current?.state\<close>.\<close>

definition recorderState :: "Session \<Rightarrow> RecordingState option" where
  "recorderState s =
     (case mediaRecorderRef s of None \<Rightarrow> None
      | Some i \<Rightarrow> map_option r_state (at_index (recorders s) i))"

text \<open>
  \<^verbatim>\<open>MediaRecorder.stop()\<close> on the recorder in the ref: its state is \<^verbatim>\<open>inactive\<close> at
  once; the platform delivers the last \<^verbatim>\<open>dataavailable\<close> and the \<^verbatim>\<open>stop\<close> events later.
\<close>

definition recorder_stop :: "Session \<Rightarrow> Session" where
  "recorder_stop s =
     (case mediaRecorderRef s of None \<Rightarrow> s
      | Some i \<Rightarrow>
          (case at_index (recorders s) i of None \<Rightarrow> s
           | Some r \<Rightarrow> s\<lparr>recorders := (recorders s)[i := r\<lparr>r_state := inactive\<rparr>]\<rparr>))"

text \<open>
  \<^verbatim>\<open>_startMediaRecorder\<close> (lines 258 to 330) in its three parts: up to the request for
  the microphone, from the answer to the resumption of a suspended audio context, and the
  rest. \<open>startMediaRecorder_catch\<close> is the \<^verbatim>\<open>catch\<close> block.
\<close>

definition startMediaRecorder_catch :: "Session \<Rightarrow> Session" where
  "startMediaRecorder_catch s = s\<lparr>error := Some ERR_MICROPHONE, isConversationActiveRef := False\<rparr>"

definition startMediaRecorder :: "Session \<Rightarrow> Session" where
  "startMediaRecorder s =
     (if recorderState s = Some recording then s
      else s\<lparr>micRequests := micRequests s + 1\<rparr>)"

definition startMediaRecorder_record :: "Platform \<Rightarrow> real \<Rightarrow> Session \<Rightarrow> Session" where
  "startMediaRecorder_record plat now s =
     (let s1 = s\<lparr>nodes := nodes s + 1, inputAnalyser := Some (nodes s),
                  lastVoiceActivityAtRef := Some now, didAutoStopSegmentRef := False\<rparr>
      in if \<not> recorderSupported plat then startMediaRecorder_catch s1
         else s1\<lparr>recorders := recorders s1 @ [\<lparr>r_state = recording, r_chunks = []\<rparr>],
                 mediaRecorderRef := Some (length (recorders s1)),
                 appState := listening, transcript := []\<rparr>)"

definition startMediaRecorder_resume :: "Platform \<Rightarrow> real \<Rightarrow> Session \<Rightarrow> Session" where
  "startMediaRecorder_resume plat now s =
     (if audioContextRef s = Some suspended then s\<lparr>captureResumes := captureResumes s + 1\<rparr>
      else startMediaRecorder_record plat now s)"

definition startMediaRecorder_stream :: "Platform \<Rightarrow> real \<Rightarrow> MicResult \<Rightarrow> Session \<Rightarrow> Session" where
  "startMediaRecorder_stream plat now res s =
     (case res of
        denied \<Rightarrow> startMediaRecorder_catch s
      | granted \<Rightarrow>
          (let s1 = s\<lparr>mediaStreamRef := True\<rparr> in
           case audioContextRef s1 of
             Some c \<Rightarrow> startMediaRecorder_resume plat now s1
           | None \<Rightarrow>
               (case newAudioContext plat of
                  None \<Rightarrow> startMediaRecorder_catch s1
                | Some c \<Rightarrow> startMediaRecorder_resume plat now (s1\<lparr>audioContextRef := Some c\<rparr>))))"

text \<open>\<^verbatim>\<open>startRecording\<close>, \<^verbatim>\<open>stopMediaRecorder\<close> and \<^verbatim>\<open>stopRecording\<close>.\<close>

definition startRecording :: "Session \<Rightarrow> Session" where
  "startRecording s =
     startMediaRecorder (s\<lparr>isConversationActiveRef := True, isConversationActive := True\<rparr>)"

definition stopMediaRecorder :: "Session \<Rightarrow> Session" where
  "stopMediaRecorder s =
     (let s1 = (case recorderState s of
                  None \<Rightarrow> s
                | Some st \<Rightarrow> if st \<noteq> inactive then recorder_stop s else s)
      in if mediaStreamRef s1 then s1\<lparr>mediaStreamRef := False\<rparr> else s1)"

definition stopRecording :: "Session \<Rightarrow> Session" where
  "stopRecording s =
     stopMediaRecorder (s\<lparr>isConversationActiveRef := False, isConversationActive := False\<rparr>)"

text \<open>
  The two handlers of recorder \<open>i\<close> (lines 292 to 317) and the \<^verbatim>\<open>onloadend\<close> handlers of
  the two kinds of reader (lines 307 to 316 and 143 to 147).
\<close>

definition ondataavailable :: "nat \<Rightarrow> blob \<Rightarrow> Session \<Rightarrow> Session" where
  "ondataavailable i b s =
     (case at_index (recorders s) i of None \<Rightarrow> s
      | Some r \<Rightarrow>
          if length b > 0
          then s\<lparr>recorders := (recorders s)[i := r\<lparr>r_chunks := r_chunks r @ [b]\<rparr>],
                 userRecordedAudioRef := userRecordedAudioRef s @ [b]\<rparr>
          else s)"

definition onstop :: "nat \<Rightarrow> Session \<Rightarrow> Session" where
  "onstop i s =
     (case at_index (recorders s) i of None \<Rightarrow> s
      | Some r \<Rightarrow>
          if length (r_chunks r) = 0 then s
          else s\<lparr>readers := readers s @ [SendAudio (Blob (r_chunks r))]\<rparr>)"

definition onloadend :: "Clock \<Rightarrow> ReaderTask \<Rightarrow> Session \<Rightarrow> Session" where
  "onloadend clk task s =
     (case task of
        SendAudio b \<Rightarrow>
          if socketRef s = Some OPEN
          then s\<lparr>sent := sent s @ [audio_complete (encodeBlob b) ''audio/webm'']\<rparr>
          else s
      | AttachUserAudio txt b \<Rightarrow>
          (addMessage clk user txt (encodeBlob b) s)\<lparr>userRecordedAudioRef := []\<rparr>)"

subsection \<open>Playback\<close>

text \<open>
  \<^verbatim>\<open>playNextInQueue\<close> (lines 410 to 481). \<open>playNext_shift\<close> is the part from line 460 to
  the await of \<^verbatim>\<open>decodeAudioData\<close>; \<open>playNext_resume\<close> is lines 456 to 458. The throw of
  line 452 leaves the state as the lines before it made it.
\<close>

definition playNext_shift :: "Session \<Rightarrow> Session" where
  "playNext_shift s =
     (case audioQueueRef s of
        [] \<Rightarrow> s
      | nextBuffer # rest \<Rightarrow>
          s\<lparr>audioQueueRef := rest, playTasks := playTasks s @ [AwaitDecode nextBuffer]\<rparr>)"

definition playNext_resume :: "Session \<Rightarrow> Session" where
  "playNext_resume s =
     (if audioContextRef s = Some suspended then s\<lparr>playTasks := playTasks s @ [AwaitResume]\<rparr>
      else playNext_shift s)"

definition playNextInQueue :: "Platform \<Rightarrow> Session \<Rightarrow> Session" where
  "playNextInQueue plat s =
     (if length (audioQueueRef s) = 0 then
        (let s1 = s\<lparr>isPlayingRef := False, outputAnalyser := None\<rparr>;
             s2 = (if length (currentAiAudioChunksRef s1) > 0
                   then s1\<lparr>messages := backfill (join ''|'' (currentAiAudioChunksRef s1)) (messages s1),
                           currentAiAudioChunksRef := []\<rparr>
                   else s1)
         in if appStateRef s2 = speaking then
              (if isConversationActiveRef s2 then startMediaRecorder s2
               else s2\<lparr>appState := idle, emotion := NEUTRAL\<rparr>)
            else s2)
      else
        (let s1 = s\<lparr>isPlayingRef := True, appState := speaking\<rparr> in
         case audioContextRef s1 of
           Some c \<Rightarrow> playNext_resume s1
         | None \<Rightarrow>
             (case newAudioContext plat of
                None \<Rightarrow> s1
              | Some c \<Rightarrow> playNext_resume (s1\<lparr>audioContextRef := Some c\<rparr>))))"

definition queueAudio :: "Platform \<Rightarrow> blob \<Rightarrow> Session \<Rightarrow> Session" where
  "queueAudio plat buffer s =
     (let s1 = s\<lparr>audioQueueRef := audioQueueRef s @ [buffer]\<rparr>
      in if \<not> isPlayingRef s1 then playNextInQueue plat s1 else s1)"

text \<open>
  The rest of \<^verbatim>\<open>playNextInQueue\<close> after the decode of \<open>buffer\<close> (lines 464 to 480), and
  the \<^verbatim>\<open>onended\<close> handler of a source.
\<close>

definition decoded :: "Platform \<Rightarrow> blob \<Rightarrow> bool \<Rightarrow> Session \<Rightarrow> Session" where
  "decoded plat buffer ok s =
     (if ok
      then s\<lparr>nodes := nodes s + 1, outputAnalyser := Some (nodes s),
             sources := sources s @ [buffer], audioOut := audioOut s @ [started buffer]\<rparr>
      else playNextInQueue plat (s\<lparr>audioOut := audioOut s @ [decode_error buffer]\<rparr>))"

definition onended :: "Platform \<Rightarrow> blob \<Rightarrow> Session \<Rightarrow> Session" where
  "onended plat buffer s = playNextInQueue plat (s\<lparr>audioOut := audioOut s @ [ended buffer]\<rparr>)"

subsection \<open>The protocol router\<close>

text \<open>\<^verbatim>\<open>handleWebSocketMessage\<close> (lines 124 to 209).\<close>

definition handleWebSocketMessage :: "Platform \<Rightarrow> Clock \<Rightarrow> WebSocketMessage \<Rightarrow> Session \<Rightarrow> Session" where
  "handleWebSocketMessage plat clk data s =
     (case w_type data of
        recording_started_t \<Rightarrow>
          s\<lparr>appState := listening, transcript := [], userRecordedAudioRef := []\<rparr>
      | recording_stopped_t \<Rightarrow> s
      | transcript_t \<Rightarrow>
          (if truthy (w_text data) then
             (let s1 = s\<lparr>transcript := the (w_text data)\<rparr> in
              if truthy_bool (w_isFinal data) then
                (let s2 = (if length (userRecordedAudioRef s1) > 0
                           then s1\<lparr>readers := readers s1 @
                                   [AttachUserAudio (the (w_text data)) (Blob (userRecordedAudioRef s1))]\<rparr>
                           else addMessage clk user (the (w_text data)) None s1)
                 in s2\<lparr>appState := processing\<rparr>)
              else s1)
           else s)
      | ai_processing_t \<Rightarrow>
          s\<lparr>isAiProcessing := (case w_isProcessing data of None \<Rightarrow> True | Some b \<Rightarrow> b),
            streamingAiText := []\<rparr>
      | ai_stream_chunk_t \<Rightarrow>
          (if truthy (w_text data)
           then s\<lparr>streamingAiText := the (w_text data), isAiProcessing := False\<rparr>
           else s)
      | ai_response_t \<Rightarrow>
          (if truthy (w_text data) then
             (let combinedAudio = (if length (currentAiAudioChunksRef s) > 0
                                   then Some (join ''|'' (currentAiAudioChunksRef s))
                                   else None);
                  s1 = addMessage clk ai (the (w_text data)) combinedAudio s;
                  s2 = s1\<lparr>currentAiAudioChunksRef := [], streamingAiText := [],
                          isAiProcessing := False\<rparr>;
                  s3 = (case w_emotion data of None \<Rightarrow> s2 | Some e \<Rightarrow> s2\<lparr>emotion := e\<rparr>)
              in s3\<lparr>appState := speaking\<rparr>)
           else s)
      | audio_t \<Rightarrow>
          (if truthy (w_data data) then
             (let s1 = s\<lparr>currentAiAudioChunksRef := currentAiAudioChunksRef s @ [the (w_data data)]\<rparr>
              in case atob plat (the (w_data data)) of
                   None \<Rightarrow> s1
                 | Some bytes \<Rightarrow> queueAudio plat bytes s1)
           else s)
      | user_speaking_t \<Rightarrow>
          (let s1 = s\<lparr>audioQueueRef := []\<rparr>
           in if isPlayingRef s1 then s1\<lparr>isPlayingRef := False, appState := listening\<rparr> else s1)
      | error_t \<Rightarrow>
          s\<lparr>error := Some (if truthy (w_message data) then the (w_message data) else ERR_GENERIC),
            appState := idle\<rparr>
      | stt_error_t \<Rightarrow>
          s\<lparr>error := Some (if truthy (w_message data) then the (w_message data) else ERR_GENERIC),
            appState := idle\<rparr>
      | other_t t \<Rightarrow> s)"


subsection \<open>The silence detector\<close>

definition SILENCE_MS :: real where
  "SILENCE_MS = 1500"

definition RMS_THRESHOLD :: real where
  "RMS_THRESHOLD = 0.01"

text \<open>
  The root mean square of the window of unsigned bytes that \<^verbatim>\<open>getByteTimeDomainData\<close>
  filled (lines 345 to 351), in exact arithmetic.
\<close>

definition rms :: "8 word list \<Rightarrow> real" where
  "rms dataArray =
     sqrt (sum_list (map (\<lambda>b. ((real (unat b) - 128) / 128) * ((real (unat b) - 128) / 128)) dataArray)
           / real (length dataArray))"

text \<open>
  The callback of the interval (lines 340 to 378), at time \<open>now\<close> with the window
  \<open>dataArray\<close>. The first component says whether the call took the auto-stop branch of
  line 365.
\<close>

definition silence_tick :: "real \<Rightarrow> 8 word list \<Rightarrow> Session \<Rightarrow> bool \<times> Session" where
  "silence_tick now dataArray s =
     (if appStateRef s \<noteq> listening then (False, s)
      else if recorderState s \<noteq> Some recording then (False, s)
      else if rms dataArray > RMS_THRESHOLD then (False, s\<lparr>lastVoiceActivityAtRef := Some now\<rparr>)
      else
        (case lastVoiceActivityAtRef s of
           None \<Rightarrow> (False, s\<lparr>lastVoiceActivityAtRef := Some now\<rparr>)
         | Some lastAt \<Rightarrow>
             if \<not> didAutoStopSegmentRef s \<and> now - lastAt \<ge> SILENCE_MS then
               (let s1 = s\<lparr>didAutoStopSegmentRef := True, appState := processing\<rparr>;
                    s2 = (if recorderState s1 = Some recording then recorder_stop s1 else s1)
                in (True, if mediaStreamRef s2 then s2\<lparr>mediaStreamRef := False\<rparr> else s2))
             else (False, s)))"

text \<open>
  What a render commits: the effect of line 42 copies \<open>appState\<close> into \<open>appStateRef\<close>, and
  the silence effect (lines 333 to 383) runs again when one of its dependencies
  \<^verbatim>\<open>[appState, inputAnalyser]\<close> has changed: its cleanup clears the interval, and its body
  installs a new one unless the guard of line 334 returns.
\<close>

definition commit :: "Session \<Rightarrow> Session" where
  "commit s =
     (let s1 = s\<lparr>appStateRef := appState s\<rparr> in
      if silenceDeps s1 = (appState s1, inputAnalyser s1) then s1
      else s1\<lparr>silenceInterval :=
                 \<not> (appState s1 \<noteq> listening \<or> inputAnalyser s1 = None \<or> \<not> isConversationActiveRef s1),
               silenceDeps := (appState s1, inputAnalyser s1)\<rparr>)"

subsection \<open>The connection\<close>

text \<open>\<^verbatim>\<open>connect\<close> and the socket's handlers (lines 48 to 106), the timer's callback
  (line 85) and the cleanup of the effect (lines 110 to 120).\<close>

definition connect :: "Session \<Rightarrow> Session" where
  "connect s =
     (if isConnectingRef s then s
      else s\<lparr>isConnectingRef := True, reconnectTimeoutRef := None, socketRef := Some CONNECTING\<rparr>)"

definition socket_onopen :: "Session \<Rightarrow> Session" where
  "socket_onopen s =
     (if \<not> isMounted s then s
      else s\<lparr>isConnected := True, error := None, reconnectAttemptRef := 0,
             isConnectingRef := False\<rparr>)"

definition socket_onclose :: "Session \<Rightarrow> Session" where
  "socket_onclose s =
     (if \<not> isMounted s then s
      else let attempt = reconnectAttemptRef s + 1;
               delayMs = min 5000 (500 * attempt)
           in s\<lparr>isConnected := False, isConnectingRef := False,
                reconnectAttemptRef := attempt, reconnectTimeoutRef := Some delayMs\<rparr>)"

text \<open>\<^verbatim>\<open>socket.close()\<close>: an open or connecting socket is closing from then on.\<close>

definition socket_close :: "Session \<Rightarrow> Session" where
  "socket_close s =
     s\<lparr>socketRef := map_option (\<lambda>r. if r = CLOSED then CLOSED else CLOSING) (socketRef s)\<rparr>"

definition socket_onerror :: "Session \<Rightarrow> Session" where
  "socket_onerror s =
     socket_close ((if isMounted s then s\<lparr>error := Some ERR_CONNECT\<rparr> else s)
                     \<lparr>isConnectingRef := False\<rparr>)"

definition reconnect_timer :: "Session \<Rightarrow> Session" where
  "reconnect_timer s = (if isMounted s then connect s else s)"

definition unmount :: "Session \<Rightarrow> Session" where
  "unmount s = (socket_close (s\<lparr>isMounted := False\<rparr>))\<lparr>isConnectingRef := False, silenceInterval := False\<rparr>"

subsection \<open>Events\<close>

text \<open>
  What the platform can report to the hook. A socket message carries the parsed frame
  (\<open>None\<close>: \<^verbatim>\<open>JSON.parse\<close> threw, and the handler of line 96 dropped the frame). The
  numbers in the playback and reader events say which pending operation has finished.
\<close>

datatype Event =
    SockOpen | SockClose | SockError | ReconnectTimer | Unmount
  | SockMessage Clock "WebSocketMessage option"
  | StartRecording | StopRecording
  | MicAnswer real MicResult | CaptureResumed real
  | DataAvailable nat blob | RecorderStopped nat | LoadEnd Clock nat
  | SilenceTick real "8 word list"
  | PlayResumed nat | DecodeDone nat bool | SourceEnded nat

definition remove_at :: "nat \<Rightarrow> 'a list \<Rightarrow> 'a list" where
  "remove_at i xs = take i xs @ drop (Suc i) xs"

definition handle :: "Platform \<Rightarrow> Event \<Rightarrow> Session \<Rightarrow> Session" where
  "handle plat ev s =
     (case ev of
        SockOpen \<Rightarrow> socket_onopen (s\<lparr>socketRef := map_option (\<lambda>r. OPEN) (socketRef s)\<rparr>)
      | SockClose \<Rightarrow> socket_onclose (s\<lparr>socketRef := map_option (\<lambda>r. CLOSED) (socketRef s)\<rparr>)
      | SockError \<Rightarrow> socket_onerror s
      | ReconnectTimer \<Rightarrow> reconnect_timer s
      | Unmount \<Rightarrow> unmount s
      | SockMessage clk None \<Rightarrow> s
      | SockMessage clk (Some data) \<Rightarrow> handleWebSocketMessage plat clk data s
      | StartRecording \<Rightarrow> startRecording s
      | StopRecording \<Rightarrow> stopRecording s
      | MicAnswer now res \<Rightarrow>
          if micRequests s = 0 then s
          else startMediaRecorder_stream plat now res (s\<lparr>micRequests := micRequests s - 1\<rparr>)
      | CaptureResumed now \<Rightarrow>
          if captureResumes s = 0 then s
          else startMediaRecorder_record plat now
                 (s\<lparr>captureResumes := captureResumes s - 1, audioContextRef := Some running\<rparr>)
      | DataAvailable i b \<Rightarrow> ondataavailable i b s
      | RecorderStopped i \<Rightarrow>
          (case at_index (recorders s) i of None \<Rightarrow> s
           | Some r \<Rightarrow> onstop i (s\<lparr>recorders := (recorders s)[i := r\<lparr>r_state := inactive\<rparr>]\<rparr>))
      | LoadEnd clk i \<Rightarrow>
          (case at_index (readers s) i of None \<Rightarrow> s
           | Some task \<Rightarrow> onloadend clk task (s\<lparr>readers := remove_at i (readers s)\<rparr>))
      | SilenceTick now dataArray \<Rightarrow>
          if silenceInterval s then snd (silence_tick now dataArray s) else s
      | PlayResumed i \<Rightarrow>
          (case at_index (playTasks s) i of
             Some AwaitResume \<Rightarrow>
               playNext_shift (s\<lparr>playTasks := remove_at i (playTasks s),
                                 audioContextRef := Some running\<rparr>)
           | _ \<Rightarrow> s)
      | DecodeDone i ok \<Rightarrow>
          (case at_index (playTasks s) i of
             Some (AwaitDecode buffer) \<Rightarrow>
               decoded plat buffer ok (s\<lparr>playTasks := remove_at i (playTasks s)\<rparr>)
           | _ \<Rightarrow> s)
      | SourceEnded i \<Rightarrow>
          (case at_index (sources s) i of None \<Rightarrow> s
           | Some buffer \<Rightarrow> onended plat buffer (s\<lparr>sources := remove_at i (sources s)\<rparr>)))"

text \<open>
  One event of a run in which a render follows every callback: the handler runs to
  completion, then React commits the render. Runs in which several callbacks come
  between two renders are those of \<open>runs\<close> below.
\<close>

definition step :: "Platform \<Rightarrow> Event \<Rightarrow> Session \<Rightarrow> Session" where
  "step plat ev s = commit (handle plat ev s)"

fun run :: "Platform \<Rightarrow> Event list \<Rightarrow> Session \<Rightarrow> Session" where
  "run plat [] s = s"
| "run plat (ev # evs) s = run plat evs (step plat ev s)"

text \<open>The hook after its first render: the connection effect has called \<^verbatim>\<open>connect\<close>.\<close>

definition mounted :: Session where
  "mounted = commit (connect initial)"


subsection \<open>Observing playback\<close>

text \<open>
  The fragments that playback has taken up, in the order it did: those it started and
  those it skipped after a failed decode. \<open>inflight\<close> gives the fragments that are being
  decoded.
\<close>

fun taken :: "PlayEvent list \<Rightarrow> blob list" where
  "taken [] = []"
| "taken (started b # es) = b # taken es"
| "taken (decode_error b # es) = b # taken es"
| "taken (ended b # es) = taken es"

fun inflight :: "PlayTask list \<Rightarrow> blob list" where
  "inflight [] = []"
| "inflight (AwaitDecode b # ts) = b # inflight ts"
| "inflight (AwaitResume # ts) = inflight ts"

text \<open>
  What is playing after one more output event, starting from \<open>Some None\<close> (nothing is
  playing); \<open>None\<close> when a source starts while another is playing, when a decode error is
  reported while a source is playing, or when a source ends that is not the one playing.
\<close>

fun output_after :: "blob option option \<Rightarrow> PlayEvent \<Rightarrow> blob option option" where
  "output_after (Some None) (started b) = Some (Some b)"
| "output_after (Some None) (decode_error b) = Some None"
| "output_after (Some (Some c)) (ended b) = (if b = c then Some None else None)"
| "output_after v e = None"

definition no_overlap :: "PlayEvent list \<Rightarrow> bool" where
  "no_overlap es = (foldl output_after (Some None) es \<noteq> None)"

text \<open>Whether an event is an inbound frame of the given type.\<close>

definition is_frame :: "MessageType \<Rightarrow> Event \<Rightarrow> bool" where
  "is_frame ty ev = (case ev of SockMessage clk (Some d) \<Rightarrow> w_type d = ty | _ \<Rightarrow> False)"

text \<open>The fragment that an event passes to \<^verbatim>\<open>queueAudio\<close>, if it does.\<close>

definition enqueued :: "Platform \<Rightarrow> Event \<Rightarrow> blob list" where
  "enqueued plat ev =
     (case ev of
        SockMessage clk (Some d) \<Rightarrow>
          if w_type d = audio_t \<and> truthy (w_data d)
          then (case atob plat (the (w_data d)) of None \<Rightarrow> [] | Some bytes \<Rightarrow> [bytes])
          else []
      | _ \<Rightarrow> [])"

text \<open>The sequencer at rest, with nothing played yet.\<close>

definition at_rest :: "Session \<Rightarrow> bool" where
  "at_rest s = (audioQueueRef s = [] \<and> \<not> isPlayingRef s \<and> playTasks s = [] \<and> sources s = []
     \<and> audioOut s = [])"

text \<open>The audio context after lines 447 to 455: the one in the ref, or a new one.\<close>

definition ctx_after :: "Platform \<Rightarrow> Session \<Rightarrow> ContextState option" where
  "ctx_after plat s = (case audioContextRef s of Some c \<Rightarrow> Some c | None \<Rightarrow> newAudioContext plat)"

text \<open>
  The invariant of the sequencer while no barge-in occurs: at most one call of
  \<^verbatim>\<open>playNextInQueue\<close> is under way or one source is playing, the flag \<open>isPlayingRef\<close>
  says so, the output so far has no overlap, and \<open>E\<close> lists the fragments enqueued so far.
\<close>

definition Inv :: "Platform \<Rightarrow> blob list \<Rightarrow> Session \<Rightarrow> bool" where
  "Inv plat E s =
     (length (playTasks s) + length (sources s) \<le> 1
    \<and> (playTasks s \<noteq> [] \<or> sources s \<noteq> [] \<longrightarrow> isPlayingRef s)
    \<and> (isPlayingRef s \<and> newAudioContext plat \<noteq> None \<longrightarrow> playTasks s \<noteq> [] \<or> sources s \<noteq> [])
    \<and> (\<not> isPlayingRef s \<longrightarrow> audioQueueRef s = [])
    \<and> (AwaitResume \<in> set (playTasks s) \<longrightarrow> audioQueueRef s \<noteq> [])
    \<and> foldl output_after (Some None) (audioOut s) =
         Some (case sources s of [] \<Rightarrow> None | b # bs \<Rightarrow> Some b)
    \<and> taken (audioOut s) @ inflight (playTasks s) @ audioQueueRef s = E)"

text \<open>The part of the state that playback reads and writes.\<close>

definition playback_fields :: "Session \<Rightarrow> blob list \<times> bool \<times> PlayTask list \<times> blob list \<times> PlayEvent list" where
  "playback_fields s = (audioQueueRef s, isPlayingRef s, playTasks s, sources s, audioOut s)"

text \<open>
  Every fragment that playback holds: taken up, being decoded or queued, as a multiset.
\<close>

definition pipeline :: "Session \<Rightarrow> blob multiset" where
  "pipeline s = mset (taken (audioOut s)) + mset (inflight (playTasks s)) + mset (audioQueueRef s)"

text \<open>
  A later message list keeps every populated message of an earlier one: it is at least
  as long, and a message that had audio data is the same message at the same place.
\<close>

definition keeps_populated :: "Message list \<Rightarrow> Message list \<Rightarrow> bool" where
  "keeps_populated ms ms' =
     (length ms \<le> length ms' \<and>
      (\<forall>i < length ms. truthy (m_audioData (ms ! i)) \<longrightarrow> ms' ! i = ms ! i))"

text \<open>The number of socket closes among some events.\<close>

definition closes :: "Event list \<Rightarrow> nat" where
  "closes evs = length (filter (\<lambda>ev. ev = SockClose) evs)"

text \<open>The part of the state that the reconnect logic depends on.\<close>

definition conn_fields :: "Session \<Rightarrow> bool \<times> nat" where
  "conn_fields s = (isMounted s, reconnectAttemptRef s)"

subsection \<open>Renders as events of their own\<close>




subsection \<open>Observing the silence detector\<close>







subsection \<open>Observing a capture segment\<close>

text \<open>
  The chunks that recorder \<open>i\<close> delivers in a run of events and that its handler keeps
  (those of a size above zero), in the order of delivery.
\<close>

fun chunks_of :: "nat \<Rightarrow> Event list \<Rightarrow> blob list" where
  "chunks_of i [] = []"
| "chunks_of i (ev # evs) =
     (case ev of
        DataAvailable j b \<Rightarrow> if j = i \<and> length b > 0 then [b] else []
      | _ \<Rightarrow> [])
     @ chunks_of i evs"

text \<open>The array \<^verbatim>\<open>chunks\<close> of recorder \<open>i\<close>.\<close>

definition chunks_at :: "nat \<Rightarrow> Session \<Rightarrow> blob list option" where
  "chunks_at i s = map_option r_chunks (at_index (recorders s) i)"

text \<open>The blobs of the readers whose completion sends an \<^verbatim>\<open>audio_complete\<close> frame.\<close>

fun sendTasks :: "ReaderTask list \<Rightarrow> blob list" where
  "sendTasks [] = []"
| "sendTasks (SendAudio b # ts) = b # sendTasks ts"
| "sendTasks (AttachUserAudio txt b # ts) = sendTasks ts"

subsection \<open>Inputs for the worked examples\<close>

text \<open>
  A browser that creates running audio contexts, supports the recorder and decodes
  base64 as the standard says.
\<close>

definition example_platform :: Platform where
  "example_platform =
     \<lparr>newAudioContext = Some running, recorderSupported = True, atob = window_atob\<rparr>"

definition example_clock :: Clock where
  "example_clock = \<lparr>date_now = 1730000000000, locale_time = ''09:30''\<rparr>"

text \<open>A frame of the given type with no other field.\<close>

definition frame :: "MessageType \<Rightarrow> WebSocketMessage" where
  "frame ty = \<lparr>w_type = ty, w_text = None, w_isFinal = None, w_emotion = None,
               w_data = None, w_message = None, w_isProcessing = None\<rparr>"

text \<open>Final transcript frames: with an empty text, with no text, and with a text.\<close>

definition empty_final_transcript :: WebSocketMessage where
  "empty_final_transcript = (frame transcript_t)\<lparr>w_text := Some [], w_isFinal := Some True\<rparr>"

definition missing_final_transcript :: WebSocketMessage where
  "missing_final_transcript = (frame transcript_t)\<lparr>w_isFinal := Some True\<rparr>"

definition hello_final_transcript :: WebSocketMessage where
  "hello_final_transcript = (frame transcript_t)\<lparr>w_text := Some ''Xin chao'', w_isFinal := Some True\<rparr>"

text \<open>An \<^verbatim>\<open>ai_response\<close> frame with an emotion but an empty text.\<close>

definition empty_ai_response :: WebSocketMessage where
  "empty_ai_response = (frame ai_response_t)\<lparr>w_text := Some [], w_emotion := Some HAPPY\<rparr>"

text \<open>
  Three audio frames that arrive before the first decode has finished; the second
  fragment fails to decode.
\<close>

definition audio_frame :: "string \<Rightarrow> Event" where
  "audio_frame d = SockMessage example_clock (Some ((frame audio_t)\<lparr>w_data := Some d\<rparr>))"

definition example_reply :: "Event list" where
  "example_reply =
     [audio_frame ''QQ=='', audio_frame ''Qg=='', audio_frame ''Qw=='',
      DecodeDone 0 True, SourceEnded 0, DecodeDone 0 False, DecodeDone 0 True, SourceEnded 0]"

text \<open>Three audio frames in a row, and a barge-in frame.\<close>

definition example_backlog :: "Event list" where
  "example_backlog = [audio_frame ''QQ=='', audio_frame ''Qg=='', audio_frame ''Qw=='']"

definition user_speaking_frame :: WebSocketMessage where
  "user_speaking_frame = frame user_speaking_t"

text \<open>
  An AI message that has audio data, and a session that holds it as its last message
  while a later fragment is in the accumulator.
\<close>

definition example_ai_message :: Message where
  "example_ai_message =
     \<lparr>m_id = ''1730000000000'', m_type = ai, m_text = ''Xin chao'', m_timestamp = ''09:30'',
      m_isTemporary = None, m_audioData = Some ''QUJD''\<rparr>"

definition example_replied :: Session where
  "example_replied = mounted\<lparr>messages := [example_ai_message], currentAiAudioChunksRef := [''WFla'']\<rparr>"



text \<open>
  A hands-free turn: the user starts recording, the microphone is granted, silence stops
  the segment, one fragment of the reply is played to its end, and the microphone request
  that follows is denied.
\<close>

definition example_denied_turn :: "Event list" where
  "example_denied_turn =
     [StartRecording, MicAnswer 0 granted, SilenceTick 2000 [128, 128],
      audio_frame ''QQ=='', DecodeDone 0 True, SourceEnded 0, MicAnswer 3000 denied]"

text \<open>
  Lost connections after a successful open: two closes, each followed by the reconnect
  timer, with a socket error in between; and ten closes in a row.
\<close>

definition example_outage :: "Event list" where
  "example_outage = [SockClose, ReconnectTimer, SockError, SockClose, ReconnectTimer]"

definition example_long_outage :: "Event list" where
  "example_long_outage =
     [SockClose, SockClose, SockClose, SockClose, SockClose,
      SockClose, SockClose, SockClose, SockClose, SockClose]"



text \<open>
  One segment: two chunks and an empty one are delivered, the user stops, the recorder
  reports its stop and the reader finishes. In \<open>example_capture\<close> the socket has opened
  before; in \<open>example_capture_offline\<close> it is still connecting.
\<close>

definition example_chunks :: "Event list" where
  "example_chunks = [DataAvailable 0 [1, 2], DataAvailable 0 [], DataAvailable 0 [3], StopRecording]"

definition example_capture :: Session where
  "example_capture = run example_platform [SockOpen, StartRecording, MicAnswer 0 granted] mounted"

definition example_capture_offline :: Session where
  "example_capture_offline = run example_platform [StartRecording, MicAnswer 0 granted] mounted"



text \<open>The barge-in frame as an event.\<close>

definition user_speaking_event :: Event where
  "user_speaking_event = SockMessage example_clock (Some user_speaking_frame)"

text \<open>
  A barge-in while the first fragment is being decoded, followed by a second fragment
  whose decode finishes first.
\<close>

definition example_interrupted :: "Event list" where
  "example_interrupted =
     [audio_frame ''QQ=='', user_speaking_event, audio_frame ''Qg=='',
      DecodeDone 1 True, DecodeDone 0 True]"

text \<open>
  A barge-in while the first fragment is playing, and the same followed by a second
  fragment.
\<close>

definition example_barge_in :: "Event list" where
  "example_barge_in = [audio_frame ''QQ=='', DecodeDone 0 True, user_speaking_event]"

definition example_barge_in_reply :: "Event list" where
  "example_barge_in_reply = example_barge_in @ [audio_frame ''Qg=='', DecodeDone 0 True]"

section \<open>Properties\<close>

subsection \<open>Lists, base64 and data URLs\<close>

lemma at_index_nth: "at_index xs i = (if i < length xs then Some (xs ! i) else None)"
  by (induction xs i rule: at_index.induct) simp_all

lemma b64_digit_in: "b64_digit n \<in> set b64_alphabet"
proof -
  have "length b64_alphabet = 64" by (simp add: b64_alphabet_def)
  then have "n mod 64 < length b64_alphabet" by simp
  then show ?thesis unfolding b64_digit_def by (rule nth_mem)
qed

lemma b64_digit_not_comma: "b64_digit n \<noteq> CHR '',''"
proof
  assume "b64_digit n = CHR '',''"
  then have "CHR '','' \<in> set b64_alphabet" using b64_digit_in [of n] by simp
  then show False by (simp add: b64_alphabet_def)
qed

lemma base64_no_comma: "CHR '','' \<notin> set (base64 b)"
  by (induction b rule: base64.induct)
     (simp_all add: b64_digit_not_comma [symmetric] b64_digit_not_comma)

lemma split_absent: "c \<notin> set xs \<Longrightarrow> split c xs = [xs]"
  by (induction xs) auto

lemma split_first: "c \<notin> set xs \<Longrightarrow> split c (xs @ c # ys) = xs # split c ys"
  by (induction xs) auto

text \<open>The second piece of the data URL is the base64 text of the blob.\<close>

lemma encodeBlob_base64: "encodeBlob b = Some (base64 b)"
proof -
  have "readAsDataURL ''audio/webm'' b = ''data:audio/webm;base64'' @ CHR '','' # base64 b"
    by (simp add: readAsDataURL_def)
  moreover have "CHR '','' \<notin> set ''data:audio/webm;base64''" by simp
  ultimately have "split (CHR '','') (readAsDataURL ''audio/webm'' b) =
      ''data:audio/webm;base64'' # split (CHR '','') (base64 b)"
    using split_first by metis
  then show ?thesis
    by (simp add: encodeBlob_def split_absent [OF base64_no_comma])
qed

subsection \<open>The protocol router\<close>

text \<open>
  C10. An \<^verbatim>\<open>ai_response\<close> frame whose text is missing or empty changes nothing: the
  handler returns the state it was given, so no AI message is appended, the emotion, the
  application state, the streamed text and the processing flag stay, and the audio
  fragments accumulated so far stay buffered.
\<close>

theorem ai_response_without_text:
  "w_type data = ai_response_t \<Longrightarrow> \<not> truthy (w_text data) \<Longrightarrow>
   handleWebSocketMessage plat clk data s = s
   \<and> handle plat (SockMessage clk (Some data)) s = s"
  by (simp add: handleWebSocketMessage_def handle_def)

theorem ai_response_without_text_witness:
  "w_type empty_ai_response = ai_response_t \<and> \<not> truthy (w_text empty_ai_response)
   \<and> handleWebSocketMessage example_platform example_clock empty_ai_response mounted = mounted
   \<and> handle example_platform (SockMessage example_clock (Some empty_ai_response)) mounted = mounted"
proof -
  have h1: "w_type empty_ai_response = ai_response_t"
    by (simp add: empty_ai_response_def frame_def)
  have h2: "\<not> truthy (w_text empty_ai_response)"
    by (simp add: empty_ai_response_def frame_def truthy_def)
  show ?thesis
    using h1 h2 ai_response_without_text [OF h1 h2, of example_platform example_clock mounted]
    by simp
qed

text \<open>
  C7, as the code has it. A \<^verbatim>\<open>transcript\<close> frame is acted on only when its text is not
  empty. Then, with \<^verbatim>\<open>isFinal\<close> set, the transcript is replaced by the text and the
  application state becomes \<open>processing\<close>. When the local capture buffer is empty the
  user message is appended at once, with no audio. When it is not empty the handler only
  starts a reader on the blob of the buffer; the user message, with the base64 text of
  that blob as its audio, is appended when the reader finishes, and the buffer is
  cleared then. A \<^verbatim>\<open>transcript\<close> frame whose text is missing or empty, final or not,
  leaves the whole state as it is.
\<close>

theorem final_transcript:
  assumes "w_type data = transcript_t" and "w_text data = Some t" and "t \<noteq> []"
    and "w_isFinal data = Some True"
  shows "transcript (handleWebSocketMessage plat clk data s) = t
    \<and> appState (handleWebSocketMessage plat clk data s) = processing
    \<and> (userRecordedAudioRef s = [] \<longrightarrow>
         messages (handleWebSocketMessage plat clk data s) = messages s @
           [\<lparr>m_id = toString (date_now clk), m_type = user, m_text = t,
             m_timestamp = locale_time clk, m_isTemporary = None, m_audioData = None\<rparr>]
         \<and> readers (handleWebSocketMessage plat clk data s) = readers s)
    \<and> (userRecordedAudioRef s \<noteq> [] \<longrightarrow>
         messages (handleWebSocketMessage plat clk data s) = messages s
         \<and> readers (handleWebSocketMessage plat clk data s) =
             readers s @ [AttachUserAudio t (concat (userRecordedAudioRef s))]
         \<and> (\<forall>clk' s'.
               messages (onloadend clk' (AttachUserAudio t (concat (userRecordedAudioRef s))) s') =
                 messages s' @
                   [\<lparr>m_id = toString (date_now clk'), m_type = user, m_text = t,
                     m_timestamp = locale_time clk', m_isTemporary = None,
                     m_audioData = Some (base64 (concat (userRecordedAudioRef s)))\<rparr>]
               \<and> userRecordedAudioRef
                   (onloadend clk' (AttachUserAudio t (concat (userRecordedAudioRef s))) s') = []))
    \<and> (\<forall>data' s'. w_type data' = transcript_t \<and> \<not> truthy (w_text data') \<longrightarrow>
          handleWebSocketMessage plat clk data' s' = s'
        \<and> handle plat (SockMessage clk (Some data')) s' = s')"
  using assms
  by (simp add: handleWebSocketMessage_def truthy_def truthy_bool_def addMessage_def Blob_def
      onloadend_def encodeBlob_base64 Let_def handle_def)

theorem final_transcript_witness:
  "transcript (handleWebSocketMessage example_platform example_clock hello_final_transcript mounted)
     = ''Xin chao''
   \<and> appState (handleWebSocketMessage example_platform example_clock hello_final_transcript mounted)
     = processing
   \<and> map m_text (messages
       (handleWebSocketMessage example_platform example_clock hello_final_transcript mounted))
     = [''Xin chao'']
   \<and> map m_text (messages
       (handleWebSocketMessage example_platform example_clock hello_final_transcript
          (mounted\<lparr>userRecordedAudioRef := [[77, 97, 110]]\<rparr>)))
     = []
   \<and> map m_audioData (messages
       (onloadend example_clock (AttachUserAudio ''Xin chao'' [77, 97, 110])
          (handleWebSocketMessage example_platform example_clock hello_final_transcript
             (mounted\<lparr>userRecordedAudioRef := [[77, 97, 110]]\<rparr>))))
     = [Some ''TWFu'']
   \<and> \<not> truthy (w_text empty_final_transcript) \<and> \<not> truthy (w_text missing_final_transcript)
   \<and> handleWebSocketMessage example_platform example_clock empty_final_transcript mounted
     = mounted
   \<and> handleWebSocketMessage example_platform example_clock missing_final_transcript mounted
     = mounted"
proof -
  have i1: "w_type empty_final_transcript = transcript_t"
      "\<not> truthy (w_text empty_final_transcript)"
    and i2: "w_type missing_final_transcript = transcript_t"
      "\<not> truthy (w_text missing_final_transcript)"
    by (simp_all add: empty_final_transcript_def missing_final_transcript_def frame_def truthy_def)
  have h1: "w_type hello_final_transcript = transcript_t"
    and h2: "w_text hello_final_transcript = Some ''Xin chao''"
    and h3: "''Xin chao'' \<noteq> []"
    and h4: "w_isFinal hello_final_transcript = Some True"
    by (simp_all add: hello_final_transcript_def frame_def)
  have e: "userRecordedAudioRef mounted = []"
    by (simp add: mounted_def commit_def connect_def initial_def)
  have m: "messages mounted = []"
    by (simp add: mounted_def commit_def connect_def initial_def)
  have b: "base64 [77, 97, 110] = ''TWFu''"
    by (simp add: b64_digit_def b64_alphabet_def)
  note f = final_transcript [OF h1 h2 h3 h4, of example_platform example_clock mounted]
  note ign = f [THEN conjunct2, THEN conjunct2, THEN conjunct2, THEN conjunct2]
  have g1: "handleWebSocketMessage example_platform example_clock empty_final_transcript mounted
      = mounted"
    using ign [THEN spec [of _ empty_final_transcript], THEN spec [of _ mounted]] i1 by simp
  have g2: "handleWebSocketMessage example_platform example_clock missing_final_transcript mounted
      = mounted"
    using ign [THEN spec [of _ missing_final_transcript], THEN spec [of _ mounted]] i2 by simp
  show ?thesis
    using f [THEN conjunct1] f [THEN conjunct2, THEN conjunct1]
      f [THEN conjunct2, THEN conjunct2, THEN conjunct1]
      final_transcript [OF h1 h2 h3 h4, of example_platform example_clock
        "mounted\<lparr>userRecordedAudioRef := [[77, 97, 110]]\<rparr>", THEN conjunct2, THEN conjunct2,
        THEN conjunct2, THEN conjunct1]
      e m b i1 i2 g1 g2
    by simp
qed

text \<open>
  The claim as written fails for a final transcript frame with an empty text: the frame is
  ignored, the application state stays \<open>idle\<close> and no message is appended.
\<close>

theorem final_transcript_counterexample:
  "w_type empty_final_transcript = transcript_t
   \<and> w_isFinal empty_final_transcript = Some True
   \<and> appState (handleWebSocketMessage example_platform example_clock empty_final_transcript mounted)
       \<noteq> processing
   \<and> messages (handleWebSocketMessage example_platform example_clock empty_final_transcript mounted)
       = []"
  by (simp add: empty_final_transcript_def frame_def handleWebSocketMessage_def truthy_def
      mounted_def commit_def connect_def initial_def)


subsection \<open>The playback sequencer\<close>

lemma taken_append: "taken (xs @ ys) = taken xs @ taken ys"
  by (induction xs rule: taken.induct) simp_all

lemma inflight_append: "inflight (xs @ ys) = inflight xs @ inflight ys"
  by (induction xs rule: inflight.induct) simp_all

lemma not_suspended: "(c \<noteq> suspended) = (c = running)"
  by (cases c) simp_all

lemma pniq_empty:
  assumes "audioQueueRef s = []"
  shows "isPlayingRef (playNextInQueue plat s) = False"
    and "audioQueueRef (playNextInQueue plat s) = []"
    and "playTasks (playNextInQueue plat s) = playTasks s"
    and "sources (playNextInQueue plat s) = sources s"
    and "audioOut (playNextInQueue plat s) = audioOut s"
  using assms by (simp_all add: playNextInQueue_def Let_def startMediaRecorder_def)

lemma pniq_nonempty:
  assumes "audioQueueRef s = b # q"
  shows "isPlayingRef (playNextInQueue plat s) = True"
    and "sources (playNextInQueue plat s) = sources s"
    and "audioOut (playNextInQueue plat s) = audioOut s"
    and "audioQueueRef (playNextInQueue plat s) = (if ctx_after plat s = Some running then q else b # q)"
    and "playTasks (playNextInQueue plat s) = playTasks s @
          (case ctx_after plat s of None \<Rightarrow> [] | Some suspended \<Rightarrow> [AwaitResume]
           | Some running \<Rightarrow> [AwaitDecode b])"
  using assms
  by (auto simp add: playNextInQueue_def Let_def playNext_resume_def playNext_shift_def ctx_after_def
      not_suspended split: option.splits ContextState.splits)

lemma Inv_pniq:
  assumes "length (playTasks s) + length (sources s) \<le> 1"
    and "playTasks s = []" and "sources s = []"
    and "foldl output_after (Some None) (audioOut s) = Some None"
    and "taken (audioOut s) @ audioQueueRef s = E"
  shows "Inv plat E (playNextInQueue plat s)"
proof (cases "audioQueueRef s")
  case Nil
  with assms show ?thesis by (simp add: Inv_def pniq_empty)
next
  case (Cons b q)
  with assms show ?thesis
    by (cases "ctx_after plat s")
       (auto simp add: Inv_def pniq_nonempty ctx_after_def split: ContextState.splits option.splits)
qed


lemma Inv_queueAudio:
  assumes "Inv plat E s"
  shows "Inv plat (E @ [b]) (queueAudio plat b s)"
proof (cases "isPlayingRef s")
  case True
  with assms show ?thesis by (auto simp add: Inv_def queueAudio_def Let_def)
next
  case False
  with assms have q: "audioQueueRef s = []" and t: "playTasks s = []" and so: "sources s = []"
    and f: "foldl output_after (Some None) (audioOut s) = Some None" and e: "taken (audioOut s) = E"
    by (auto simp add: Inv_def)
  have "Inv plat (E @ [b]) (playNextInQueue plat (s\<lparr>audioQueueRef := audioQueueRef s @ [b]\<rparr>))"
    by (rule Inv_pniq) (simp_all add: q t so f e)
  with False show ?thesis by (simp add: queueAudio_def Let_def)
qed

lemma Inv_audio_frame:
  assumes "Inv plat E s" and "w_type d = audio_t"
  shows "Inv plat (E @ enqueued plat (SockMessage clk (Some d))) (handleWebSocketMessage plat clk d s)"
proof (cases "truthy (w_data d)")
  case False
  with assms show ?thesis by (simp add: handleWebSocketMessage_def enqueued_def)
next
  case True
  show ?thesis
  proof (cases "atob plat (the (w_data d))")
    case None
    with True assms show ?thesis
      by (simp add: handleWebSocketMessage_def enqueued_def Inv_def)
  next
    case (Some bytes)
    have "Inv plat E (s\<lparr>currentAiAudioChunksRef := currentAiAudioChunksRef s @ [the (w_data d)]\<rparr>)"
      using assms(1) by (simp add: Inv_def)
    then have "Inv plat (E @ [bytes])
        (queueAudio plat bytes (s\<lparr>currentAiAudioChunksRef := currentAiAudioChunksRef s @ [the (w_data d)]\<rparr>))"
      by (rule Inv_queueAudio)
    with True Some assms(2) show ?thesis
      by (simp add: handleWebSocketMessage_def enqueued_def)
  qed
qed

lemma tasks_shape:
  assumes "length (playTasks s) + length (sources s) \<le> 1" and "at_index (playTasks s) i = Some t"
  shows "playTasks s = [t] \<and> i = 0 \<and> sources s = []"
proof -
  from assms(2) have "i < length (playTasks s)" and "playTasks s ! i = t"
    by (simp_all add: at_index_nth split: if_splits)
  with assms(1) show ?thesis by (cases "playTasks s") auto
qed

lemma sources_shape:
  assumes "length (playTasks s) + length (sources s) \<le> 1" and "at_index (sources s) i = Some b"
  shows "sources s = [b] \<and> i = 0 \<and> playTasks s = []"
proof -
  from assms(2) have "i < length (sources s)" and "sources s ! i = b"
    by (simp_all add: at_index_nth split: if_splits)
  with assms(1) show ?thesis by (cases "sources s") auto
qed

lemma Inv_PlayResumed:
  assumes "Inv plat E s"
  shows "Inv plat E (handle plat (PlayResumed i) s)"
proof (cases "at_index (playTasks s) i")
  case None
  with assms show ?thesis by (simp add: handle_def)
next
  case (Some t)
  from assms have l: "length (playTasks s) + length (sources s) \<le> 1" by (simp add: Inv_def)
  from tasks_shape [OF l Some] have sh: "playTasks s = [t]" "i = 0" "sources s = []" by simp_all
  show ?thesis
  proof (cases t)
    case (AwaitDecode b)
    with Some assms show ?thesis by (simp add: handle_def)
  next
    case AwaitResume
    with sh assms obtain b q where q: "audioQueueRef s = b # q"
      by (cases "audioQueueRef s") (auto simp add: Inv_def)
    with AwaitResume Some sh assms show ?thesis
      by (simp add: handle_def remove_at_def playNext_shift_def Inv_def)
  qed
qed

lemma Inv_DecodeDone:
  assumes "Inv plat E s"
  shows "Inv plat E (handle plat (DecodeDone i ok) s)"
proof (cases "at_index (playTasks s) i")
  case None
  with assms show ?thesis by (simp add: handle_def)
next
  case (Some t)
  from assms have l: "length (playTasks s) + length (sources s) \<le> 1" by (simp add: Inv_def)
  from tasks_shape [OF l Some] have sh: "playTasks s = [t]" "i = 0" "sources s = []" by simp_all
  show ?thesis
  proof (cases t)
    case AwaitResume
    with Some assms show ?thesis by (simp add: handle_def)
  next
    case (AwaitDecode b)
    show ?thesis
    proof (cases ok)
      case True
      with AwaitDecode Some sh assms show ?thesis
        by (simp add: handle_def remove_at_def decoded_def Inv_def taken_append)
    next
      case False
      have "Inv plat E (playNextInQueue plat
          (s\<lparr>playTasks := [], audioOut := audioOut s @ [decode_error b]\<rparr>))"
        using assms sh AwaitDecode
        by (intro Inv_pniq) (simp_all add: Inv_def taken_append)
      with False AwaitDecode Some sh show ?thesis
        by (simp add: handle_def remove_at_def decoded_def)
    qed
  qed
qed

lemma Inv_SourceEnded:
  assumes "Inv plat E s"
  shows "Inv plat E (handle plat (SourceEnded i) s)"
proof (cases "at_index (sources s) i")
  case None
  with assms show ?thesis by (simp add: handle_def)
next
  case (Some b)
  from assms have l: "length (playTasks s) + length (sources s) \<le> 1" by (simp add: Inv_def)
  from sources_shape [OF l Some] have sh: "sources s = [b]" "i = 0" "playTasks s = []" by simp_all
  have "Inv plat E (playNextInQueue plat (s\<lparr>sources := [], audioOut := audioOut s @ [ended b]\<rparr>))"
    using assms sh by (intro Inv_pniq) (simp_all add: Inv_def taken_append)
  with Some sh show ?thesis
    by (simp add: handle_def remove_at_def onended_def)
qed

lemma Inv_fields: "playback_fields s' = playback_fields s \<Longrightarrow> Inv plat E s' = Inv plat E s"
  by (simp add: playback_fields_def Inv_def)

lemma fields_handleWebSocketMessage:
  "w_type d \<noteq> audio_t \<Longrightarrow> w_type d \<noteq> user_speaking_t \<Longrightarrow>
   playback_fields (handleWebSocketMessage plat clk d s) = playback_fields s"
  by (cases "w_type d")
     (simp_all add: handleWebSocketMessage_def playback_fields_def Let_def addMessage_def
        split: option.splits)

lemma fields_commit: "playback_fields (commit s) = playback_fields s"
  by (simp add: commit_def playback_fields_def Let_def)

lemma fields_handle:
  assumes "\<not> is_frame audio_t ev" and "\<not> is_frame user_speaking_t ev"
    and "\<And>i. ev \<noteq> PlayResumed i" and "\<And>i ok. ev \<noteq> DecodeDone i ok" and "\<And>i. ev \<noteq> SourceEnded i"
  shows "playback_fields (handle plat ev s) = playback_fields s"
proof (cases ev)
  case (SockMessage clk d)
  with assms(1,2) show ?thesis
    by (cases d) (simp_all add: handle_def is_frame_def fields_handleWebSocketMessage)
next
  case (LoadEnd clk i)
  then show ?thesis
    by (simp add: handle_def onloadend_def addMessage_def playback_fields_def split: option.splits ReaderTask.splits)
next
  case (MicAnswer now res)
  then show ?thesis
    by (simp add: handle_def startMediaRecorder_stream_def startMediaRecorder_resume_def
       startMediaRecorder_record_def startMediaRecorder_catch_def Let_def playback_fields_def
       split: MicResult.splits option.splits)
next
  case (SilenceTick now d)
  then show ?thesis
    by (simp add: handle_def silence_tick_def recorder_stop_def Let_def playback_fields_def split: option.splits)
next
  case (PlayResumed i) with assms(3) show ?thesis by blast
next
  case (DecodeDone i ok) with assms(4) show ?thesis by blast
next
  case (SourceEnded i) with assms(5) show ?thesis by blast
qed (simp_all add: handle_def playback_fields_def socket_onopen_def socket_onclose_def socket_onerror_def
      socket_close_def reconnect_timer_def connect_def unmount_def startRecording_def stopRecording_def
      startMediaRecorder_def stopMediaRecorder_def recorder_stop_def startMediaRecorder_record_def
      startMediaRecorder_catch_def ondataavailable_def onstop_def Let_def
      split: option.splits list.splits)

lemma enqueued_other: "\<not> is_frame audio_t ev \<Longrightarrow> enqueued plat ev = []"
  by (auto simp add: enqueued_def is_frame_def split: Event.splits option.splits)

lemma Inv_step:
  assumes "Inv plat E s" and "\<not> is_frame user_speaking_t ev"
  shows "Inv plat (E @ enqueued plat ev) (step plat ev s)"
proof -
  have "Inv plat (E @ enqueued plat ev) (handle plat ev s)"
  proof (cases "is_frame audio_t ev")
    case True
    then obtain clk d where "ev = SockMessage clk (Some d)" and "w_type d = audio_t"
      by (auto simp add: is_frame_def split: Event.splits option.splits)
    with assms(1) show ?thesis
      by (simp add: handle_def Inv_audio_frame)
  next
    case False
    note nf = this
    show ?thesis
    proof (cases ev)
      case (PlayResumed i)
      with assms(1) nf show ?thesis by (simp add: enqueued_other Inv_PlayResumed)
    next
      case (DecodeDone i ok)
      with assms(1) nf show ?thesis by (simp add: enqueued_other Inv_DecodeDone)
    next
      case (SourceEnded i)
      with assms(1) nf show ?thesis by (simp add: enqueued_other Inv_SourceEnded)
    qed (use assms nf in \<open>simp_all add: enqueued_other Inv_fields [OF fields_handle]\<close>)
  qed
  then show ?thesis
    by (simp add: step_def Inv_fields [OF fields_commit])
qed

lemma Inv_run:
  "Inv plat E s \<Longrightarrow> \<forall>ev \<in> set evs. \<not> is_frame user_speaking_t ev \<Longrightarrow>
   Inv plat (E @ concat (map (enqueued plat) evs)) (run plat evs s)"
proof (induction evs arbitrary: E s)
  case Nil
  then show ?case by simp
next
  case (Cons ev evs)
  from Cons.prems have "Inv plat (E @ enqueued plat ev) (step plat ev s)"
    by (simp add: Inv_step)
  from Cons.IH [OF this] Cons.prems(2) show ?case by simp
qed

lemma at_rest_Inv: "at_rest s \<Longrightarrow> Inv plat [] s"
  by (simp add: at_rest_def Inv_def)

lemma decode_failure_skips:
  assumes "playTasks s = [AwaitDecode b]" and "audioQueueRef s = b' # q"
    and "audioContextRef s = Some running"
  shows "audioOut (handle plat (DecodeDone 0 False) s) = audioOut s @ [decode_error b]"
    and "playTasks (handle plat (DecodeDone 0 False) s) = [AwaitDecode b']"
    and "audioQueueRef (handle plat (DecodeDone 0 False) s) = q"
    and "sources (handle plat (DecodeDone 0 False) s) = sources s"
  using assms
  by (simp_all add: handle_def decoded_def remove_at_def pniq_nonempty ctx_after_def)

text \<open>
  C5, as the code has it. From a sequencer at rest, take any run of events without a
  barge-in frame: audio
  frames that enqueue fragments, completions of context resumptions, decodes (successful
  or not) and sources, in any interleaving, and any other event of the hook. Then the
  output never has two sources playing at once (a source starts only after the one
  before it has ended); the fragments taken up so far, followed by the one being decoded
  and the ones still queued, are the enqueued fragments in their order of arrival; and
  when nothing is pending any more (and the browser can create an audio context) every
  enqueued fragment has been taken up, in that order. A fragment whose decode fails is
  logged and skipped, and the next queued fragment is taken up in the same step.
\<close>

theorem playback_fifo:
  assumes "at_rest s" and "\<forall>ev \<in> set evs. \<not> is_frame user_speaking_t ev"
  shows "no_overlap (audioOut (run plat evs s))
    \<and> taken (audioOut (run plat evs s)) @ inflight (playTasks (run plat evs s))
        @ audioQueueRef (run plat evs s) = concat (map (enqueued plat) evs)
    \<and> (newAudioContext plat \<noteq> None \<and> playTasks (run plat evs s) = [] \<and> sources (run plat evs s) = []
         \<longrightarrow> taken (audioOut (run plat evs s)) = concat (map (enqueued plat) evs))
    \<and> (\<forall>s' b b' q. playTasks s' = [AwaitDecode b] \<and> audioQueueRef s' = b' # q
           \<and> audioContextRef s' = Some running \<longrightarrow>
           audioOut (handle plat (DecodeDone 0 False) s') = audioOut s' @ [decode_error b]
         \<and> playTasks (handle plat (DecodeDone 0 False) s') = [AwaitDecode b']
         \<and> audioQueueRef (handle plat (DecodeDone 0 False) s') = q
         \<and> sources (handle plat (DecodeDone 0 False) s') = sources s')"
proof -
  have "Inv plat ([] @ concat (map (enqueued plat) evs)) (run plat evs s)"
    using assms by (intro Inv_run at_rest_Inv)
  then show ?thesis
    by (auto simp add: Inv_def no_overlap_def decode_failure_skips)
qed

lemma window_atob_examples:
  "window_atob ''QQ=='' = Some [65]" "window_atob ''Qg=='' = Some [66]"
  "window_atob ''Qw=='' = Some [67]"
  by (simp_all add: window_atob_def strip_padding_def ascii_whitespace_def b64_value_def
      b64_alphabet_def Let_def)

lemmas example_defs = window_atob_examples
  handle_def step_def commit_def connect_def mounted_def initial_def
  startRecording_def stopRecording_def stopMediaRecorder_def
  startMediaRecorder_def startMediaRecorder_stream_def startMediaRecorder_resume_def
  startMediaRecorder_record_def startMediaRecorder_catch_def recorderState_def recorder_stop_def
  silence_tick_def rms_def RMS_THRESHOLD_def SILENCE_MS_def handleWebSocketMessage_def
  queueAudio_def playNextInQueue_def playNext_resume_def playNext_shift_def decoded_def onended_def
  ondataavailable_def onstop_def onloadend_def addMessage_def Blob_def
  socket_onopen_def socket_onclose_def socket_onerror_def socket_close_def reconnect_timer_def
  backfill_def truthy_def truthy_bool_def frame_def audio_frame_def example_platform_def
  example_clock_def remove_at_def

theorem playback_fifo_witness:
  "at_rest mounted
   \<and> audioOut (run example_platform example_reply mounted) =
       [started [65], ended [65], decode_error [66], started [67], ended [67]]
   \<and> no_overlap (audioOut (run example_platform example_reply mounted))
   \<and> taken (audioOut (run example_platform example_reply mounted)) = [[65], [66], [67]]
   \<and> concat (map (enqueued example_platform) example_reply) = [[65], [66], [67]]"
proof -
  have h1: "at_rest mounted"
    by (simp add: at_rest_def mounted_def commit_def connect_def initial_def)
  have h2: "\<forall>ev \<in> set example_reply. \<not> is_frame user_speaking_t ev"
    by (simp add: example_reply_def is_frame_def audio_frame_def frame_def)
  have out: "audioOut (run example_platform example_reply mounted) =
      [started [65], ended [65], decode_error [66], started [67], ended [67]]"
    by (simp add: example_reply_def example_defs)
  have t: "playTasks (run example_platform example_reply mounted) = []"
    by (simp add: example_reply_def example_defs)
  have so: "sources (run example_platform example_reply mounted) = []"
    by (simp add: example_reply_def example_defs)
  have n: "newAudioContext example_platform \<noteq> None"
    by (simp add: example_platform_def)
  show ?thesis
    using playback_fifo [OF h1 h2, of example_platform] h1 out t so n
    by simp
qed


text \<open>
  The claim as written fails when a barge-in frame arrives in between: the flag
  \<open>isPlayingRef\<close> is cleared while the first fragment is still being decoded, the next
  fragment starts a second call of \<^verbatim>\<open>playNextInQueue\<close>, its decode finishes first, and
  the two fragments are played in the opposite order and at the same time.
\<close>

theorem playback_fifo_counterexample:
  "at_rest mounted
   \<and> concat (map (enqueued example_platform) example_interrupted) = [[65], [66]]
   \<and> audioOut (run example_platform example_interrupted mounted) = [started [66], started [65]]
   \<and> sources (run example_platform example_interrupted mounted) = [[66], [65]]
   \<and> \<not> no_overlap (audioOut (run example_platform example_interrupted mounted))"
proof -
  have a: "at_rest mounted"
    by (simp add: at_rest_def mounted_def commit_def connect_def initial_def)
  have e: "concat (map (enqueued example_platform) example_interrupted) = [[65], [66]]"
    by (simp add: example_interrupted_def enqueued_def audio_frame_def user_speaking_event_def
        user_speaking_frame_def frame_def truthy_def example_platform_def window_atob_examples)
  have out: "audioOut (run example_platform example_interrupted mounted)
      = [started [66], started [65]]"
    and so: "sources (run example_platform example_interrupted mounted) = [[66], [65]]"
    by (simp_all add: example_interrupted_def user_speaking_event_def user_speaking_frame_def
        example_defs)
  from a e out so show ?thesis
    by (simp add: no_overlap_def)
qed

subsection \<open>Barge-in\<close>

lemma pipeline_fields: "playback_fields s' = playback_fields s \<Longrightarrow> pipeline s' = pipeline s"
  by (simp add: playback_fields_def pipeline_def)

lemma pipeline_pniq: "pipeline (playNextInQueue plat s) = pipeline s"
proof (cases "audioQueueRef s")
  case Nil
  then show ?thesis by (simp add: pipeline_def pniq_empty)
next
  case (Cons b q)
  then show ?thesis
    by (cases "ctx_after plat s")
       (auto simp add: pipeline_def pniq_nonempty inflight_append split: ContextState.splits)
qed

lemma pipeline_queueAudio: "pipeline (queueAudio plat b s) = pipeline s + {#b#}"
  by (simp add: queueAudio_def Let_def pipeline_pniq) (simp add: pipeline_def)

lemma inflight_remove_resume:
  "i < length ts \<Longrightarrow> ts ! i = AwaitResume \<Longrightarrow> inflight (remove_at i ts) = inflight ts"
proof (induction ts arbitrary: i rule: inflight.induct)
  case 1 then show ?case by simp
next
  case (2 b ts)
  then show ?case by (cases i) (simp_all add: remove_at_def)
next
  case (3 ts)
  then show ?case by (cases i) (simp_all add: remove_at_def)
qed

lemma inflight_remove_decode:
  "i < length ts \<Longrightarrow> ts ! i = AwaitDecode b \<Longrightarrow>
   add_mset b (mset (inflight (remove_at i ts))) = mset (inflight ts)"
proof (induction ts arbitrary: i rule: inflight.induct)
  case 1 then show ?case by simp
next
  case (2 c ts)
  then show ?case by (cases i) (simp_all add: remove_at_def)
next
  case (3 ts)
  then show ?case by (cases i) (simp_all add: remove_at_def)
qed

lemma pipeline_PlayResumed: "pipeline (handle plat (PlayResumed i) s) = pipeline s"
proof (cases "at_index (playTasks s) i")
  case None
  then show ?thesis by (simp add: handle_def)
next
  case (Some t)
  then have i: "i < length (playTasks s)" "playTasks s ! i = t"
    by (simp_all add: at_index_nth split: if_splits)
  show ?thesis
  proof (cases t)
    case (AwaitDecode b)
    with Some show ?thesis by (simp add: handle_def)
  next
    case AwaitResume
    with Some i show ?thesis
      by (cases "audioQueueRef s")
         (simp_all add: handle_def playNext_shift_def pipeline_def inflight_append inflight_remove_resume)
  qed
qed

lemma pipeline_DecodeDone: "pipeline (handle plat (DecodeDone i ok) s) = pipeline s"
proof (cases "at_index (playTasks s) i")
  case None
  then show ?thesis by (simp add: handle_def)
next
  case (Some t)
  then have i: "i < length (playTasks s)" "playTasks s ! i = t"
    by (simp_all add: at_index_nth split: if_splits)
  show ?thesis
  proof (cases t)
    case AwaitResume
    with Some show ?thesis by (simp add: handle_def)
  next
    case (AwaitDecode b)
    with i have m: "add_mset b (mset (inflight (remove_at i (playTasks s)))) = mset (inflight (playTasks s))"
      by (simp add: inflight_remove_decode)
    with AwaitDecode Some show ?thesis
      by (cases ok)
         (simp_all add: handle_def decoded_def pipeline_pniq, simp_all add: pipeline_def taken_append ac_simps)
  qed
qed

lemma pipeline_SourceEnded: "pipeline (handle plat (SourceEnded i) s) = pipeline s"
  by (cases "at_index (sources s) i")
     (simp_all add: handle_def onended_def pipeline_pniq, simp add: pipeline_def taken_append)

lemma pipeline_frame:
  "pipeline (handleWebSocketMessage plat clk d s) =
     (if w_type d = user_speaking_t then pipeline s - mset (audioQueueRef s)
      else pipeline s + mset (enqueued plat (SockMessage clk (Some d))))"
proof -
  consider (a) "w_type d = audio_t" | (u) "w_type d = user_speaking_t"
    | (o) "w_type d \<noteq> audio_t" "w_type d \<noteq> user_speaking_t" by blast
  then show ?thesis
  proof cases
    case o
    then show ?thesis
      by (simp add: pipeline_fields [OF fields_handleWebSocketMessage] enqueued_def)
  next
    case u
    then show ?thesis
      by (simp add: handleWebSocketMessage_def Let_def pipeline_def)
  next
    case a
    show ?thesis
    proof (cases "truthy (w_data d)")
      case False
      with a show ?thesis by (simp add: handleWebSocketMessage_def enqueued_def)
    next
      case True
      have c: "pipeline (s\<lparr>currentAiAudioChunksRef := currentAiAudioChunksRef s @ [the (w_data d)]\<rparr>)
          = pipeline s"
        by (simp add: pipeline_def)
      from a True show ?thesis
        by (cases "atob plat (the (w_data d))")
           (simp_all add: handleWebSocketMessage_def enqueued_def pipeline_queueAudio c)
    qed
  qed
qed

lemma pipeline_step: "pipeline (step plat ev s) \<subseteq># pipeline s + mset (enqueued plat ev)"
proof -
  have "pipeline (handle plat ev s) \<subseteq># pipeline s + mset (enqueued plat ev)"
  proof (cases ev)
    case (SockMessage clk d)
    then show ?thesis
      by (cases d) (simp_all add: handle_def pipeline_frame enqueued_def)
  next
    case (PlayResumed i)
    then show ?thesis by (simp add: pipeline_PlayResumed enqueued_def)
  next
    case (DecodeDone i ok)
    then show ?thesis by (simp add: pipeline_DecodeDone enqueued_def)
  next
    case (SourceEnded i)
    then show ?thesis by (simp add: pipeline_SourceEnded enqueued_def)
  qed (simp_all add: enqueued_def is_frame_def pipeline_fields [OF fields_handle])
  then show ?thesis
    by (simp add: step_def pipeline_fields [OF fields_commit])
qed

lemma pipeline_run:
  "pipeline (run plat evs s) \<subseteq># pipeline s + mset (concat (map (enqueued plat) evs))"
proof (induction evs arbitrary: s)
  case Nil
  show ?case by simp
next
  case (Cons ev evs)
  have "pipeline (run plat evs (step plat ev s))
      \<subseteq># pipeline (step plat ev s) + mset (concat (map (enqueued plat) evs))"
    by (rule Cons.IH)
  also have "\<dots> \<subseteq># (pipeline s + mset (enqueued plat ev)) + mset (concat (map (enqueued plat) evs))"
    using pipeline_step [of plat ev s] by (simp add: subset_mset.add_mono)
  finally show ?case by (simp add: ac_simps)
qed

text \<open>
  What a \<^verbatim>\<open>user_speaking\<close> frame does. It empties the playback queue. If the flag
  \<open>isPlayingRef\<close> is set, it clears the flag and the application state becomes
  \<open>listening\<close>; if the flag is not set, the application state stays as it was. No
  fragment that was in the queue at the time of the frame is taken up later: in every
  run after the frame, the fragments that playback has started or skipped are among
  those it had taken up before the frame, those that were already being decoded at the
  time of the frame, and those enqueued after it.
\<close>

lemma user_speaking_effect:
  assumes "w_type d = user_speaking_t"
  shows "audioQueueRef (handleWebSocketMessage plat clk d s) = []
    \<and> (isPlayingRef s \<longrightarrow> \<not> isPlayingRef (handleWebSocketMessage plat clk d s)
          \<and> appState (handleWebSocketMessage plat clk d s) = listening)
    \<and> (\<not> isPlayingRef s \<longrightarrow> appState (handleWebSocketMessage plat clk d s) = appState s)
    \<and> (\<forall>evs. mset (taken (audioOut (run plat evs (step plat (SockMessage clk (Some d)) s))))
          \<subseteq># mset (taken (audioOut s)) + mset (inflight (playTasks s))
              + mset (concat (map (enqueued plat) evs)))"
proof -
  have q: "audioQueueRef (handleWebSocketMessage plat clk d s) = []"
    using assms by (simp add: handleWebSocketMessage_def Let_def)
  have p: "pipeline (step plat (SockMessage clk (Some d)) s) =
      mset (taken (audioOut s)) + mset (inflight (playTasks s))"
    using assms
    by (simp add: step_def pipeline_fields [OF fields_commit] handle_def pipeline_frame)
       (simp add: pipeline_def)
  have "\<And>evs. mset (taken (audioOut (run plat evs (step plat (SockMessage clk (Some d)) s))))
          \<subseteq># mset (taken (audioOut s)) + mset (inflight (playTasks s))
              + mset (concat (map (enqueued plat) evs))"
  proof -
    fix evs
    let ?f = "run plat evs (step plat (SockMessage clk (Some d)) s)"
    have "mset (taken (audioOut ?f)) \<subseteq># pipeline ?f"
      by (simp add: pipeline_def)
    also have "\<dots> \<subseteq># pipeline (step plat (SockMessage clk (Some d)) s)
        + mset (concat (map (enqueued plat) evs))"
      by (rule pipeline_run)
    finally show "mset (taken (audioOut ?f))
          \<subseteq># mset (taken (audioOut s)) + mset (inflight (playTasks s))
              + mset (concat (map (enqueued plat) evs))"
      by (simp add: p)
  qed
  with q assms show ?thesis
    by (simp add: handleWebSocketMessage_def Let_def)
qed

lemma user_speaking_effect_example:
  "w_type user_speaking_frame = user_speaking_t
   \<and> audioQueueRef (run example_platform example_backlog mounted) = [[66], [67]]
   \<and> isPlayingRef (run example_platform example_backlog mounted)
   \<and> audioQueueRef (handleWebSocketMessage example_platform example_clock user_speaking_frame
         (run example_platform example_backlog mounted)) = []
   \<and> \<not> isPlayingRef (handleWebSocketMessage example_platform example_clock user_speaking_frame
         (run example_platform example_backlog mounted))
   \<and> appState (handleWebSocketMessage example_platform example_clock user_speaking_frame
         (run example_platform example_backlog mounted)) = listening
   \<and> mset (taken (audioOut (run example_platform [DecodeDone 0 True, SourceEnded 0]
         (step example_platform (SockMessage example_clock (Some user_speaking_frame))
            (run example_platform example_backlog mounted)))))
       \<subseteq># {#[65]#}"
proof -
  have h: "w_type user_speaking_frame = user_speaking_t"
    by (simp add: user_speaking_frame_def frame_def)
  have q: "audioQueueRef (run example_platform example_backlog mounted) = [[66], [67]]"
    by (simp add: example_backlog_def example_defs)
  have p: "isPlayingRef (run example_platform example_backlog mounted)"
    by (simp add: example_backlog_def example_defs)
  have t: "playTasks (run example_platform example_backlog mounted) = [AwaitDecode [65]]"
    by (simp add: example_backlog_def example_defs)
  have out: "audioOut (run example_platform example_backlog mounted) = []"
    by (simp add: example_backlog_def example_defs)
  have e: "concat (map (enqueued example_platform) [DecodeDone 0 True, SourceEnded 0]) = []"
    by (simp add: enqueued_def)
  note b = user_speaking_effect [OF h, of example_platform example_clock
      "run example_platform example_backlog mounted"]
  have l: "mset (taken (audioOut (run example_platform [DecodeDone 0 True, SourceEnded 0]
         (step example_platform (SockMessage example_clock (Some user_speaking_frame))
            (run example_platform example_backlog mounted)))))
       \<subseteq># {#[65]#}"
    using b [THEN conjunct2, THEN conjunct2, THEN conjunct2, THEN spec,
        of "[DecodeDone 0 True, SourceEnded 0]"] t out e
    by simp
  show ?thesis
    using b h q p l by simp
qed

text \<open>
  C4 at a failing input. A fragment is playing when the \<^verbatim>\<open>user_speaking\<close> frame
  arrives. The handler empties the queue, clears the flag and sets the application
  state to \<open>listening\<close>, but the source is not stopped: it is still among the playing
  sources and no end of it has reached the output. The fragment of the next audio frame
  then starts while the first one is still playing.
\<close>

theorem barge_in_leaves_source_playing:
  "sources (run example_platform example_barge_in mounted) = [[65]]
   \<and> audioOut (run example_platform example_barge_in mounted) = [started [65]]
   \<and> audioQueueRef (run example_platform example_barge_in mounted) = []
   \<and> \<not> isPlayingRef (run example_platform example_barge_in mounted)
   \<and> appState (run example_platform example_barge_in mounted) = listening
   \<and> audioOut (run example_platform example_barge_in_reply mounted)
       = [started [65], started [66]]
   \<and> sources (run example_platform example_barge_in_reply mounted) = [[65], [66]]
   \<and> \<not> no_overlap (audioOut (run example_platform example_barge_in_reply mounted))"
proof -
  have "audioOut (run example_platform example_barge_in_reply mounted)
      = [started [65], started [66]]"
    by (simp add: example_barge_in_reply_def example_barge_in_def user_speaking_event_def
        user_speaking_frame_def example_defs)
  then show ?thesis
    by (simp add: no_overlap_def)
       (simp add: example_barge_in_reply_def example_barge_in_def user_speaking_event_def
          user_speaking_frame_def example_defs)
qed


subsection \<open>Audio data of messages\<close>

lemma backfill_length: "length (backfill c prev) = length prev"
  by (simp add: backfill_def Let_def)

lemma backfill_keeps_populated:
  "i < length prev \<Longrightarrow> truthy (m_audioData (prev ! i)) \<Longrightarrow> backfill c prev ! i = prev ! i"
  by (cases "i = length prev - 1")
     (auto simp add: backfill_def Let_def last_conv_nth nth_list_update)

lemma backfill_twice: "c \<noteq> [] \<Longrightarrow> backfill c' (backfill c prev) = backfill c prev"
  by (auto simp add: backfill_def Let_def last_conv_nth truthy_def)

lemma messages_startMediaRecorder: "messages (startMediaRecorder s) = messages s"
  by (simp add: startMediaRecorder_def)

lemma messages_playNextInQueue:
  "messages (playNextInQueue plat s) =
     (if audioQueueRef s = [] \<and> currentAiAudioChunksRef s \<noteq> []
      then backfill (join ''|'' (currentAiAudioChunksRef s)) (messages s) else messages s)"
  by (simp add: playNextInQueue_def Let_def messages_startMediaRecorder playNext_resume_def
      playNext_shift_def split: option.splits list.splits)

lemma drained_playNextInQueue:
  "audioQueueRef s = [] \<Longrightarrow>
     audioQueueRef (playNextInQueue plat s) = []
     \<and> currentAiAudioChunksRef (playNextInQueue plat s) = []"
  by (simp add: playNextInQueue_def Let_def startMediaRecorder_def)

lemma keeps_refl: "keeps_populated ms ms"
  by (simp add: keeps_populated_def)

lemma keeps_append: "keeps_populated ms (ms @ xs)"
  by (simp add: keeps_populated_def nth_append)

lemma keeps_backfill: "keeps_populated ms (backfill c ms)"
  by (simp add: keeps_populated_def backfill_length backfill_keeps_populated)

lemma keeps_trans: "keeps_populated a b \<Longrightarrow> keeps_populated b c \<Longrightarrow> keeps_populated a c"
  unfolding keeps_populated_def by (metis le_trans order.strict_trans2)

lemma keeps_playNextInQueue:
  "messages s' = messages s \<Longrightarrow> keeps_populated (messages s) (messages (playNextInQueue plat s'))"
  by (simp add: messages_playNextInQueue keeps_refl keeps_backfill)

lemma keeps_handleWebSocketMessage:
  "keeps_populated (messages s) (messages (handleWebSocketMessage plat clk data s))"
  by (cases "w_type data")
     (simp_all add: handleWebSocketMessage_def Let_def addMessage_def keeps_refl keeps_append
        queueAudio_def keeps_playNextInQueue split: option.splits)

lemma keeps_handle: "keeps_populated (messages s) (messages (handle plat ev s))"
proof (cases ev)
  case (SockMessage clk d)
  then show ?thesis
    by (cases d) (simp_all add: handle_def keeps_refl keeps_handleWebSocketMessage)
next
  case (DecodeDone i ok)
  then show ?thesis
    by (simp add: handle_def decoded_def keeps_refl keeps_playNextInQueue
        split: option.splits PlayTask.splits)
next
  case (SourceEnded i)
  then show ?thesis
    by (simp add: handle_def onended_def keeps_refl keeps_playNextInQueue split: option.splits)
next
  case (LoadEnd clk i)
  then show ?thesis
    by (simp add: handle_def onloadend_def addMessage_def keeps_refl keeps_append
        split: option.splits ReaderTask.splits)
next
  case (MicAnswer now res)
  then show ?thesis
    by (simp add: handle_def startMediaRecorder_stream_def startMediaRecorder_resume_def
        startMediaRecorder_record_def startMediaRecorder_catch_def Let_def keeps_refl
        split: MicResult.splits option.splits)
next
  case (SilenceTick now d)
  then show ?thesis
    by (simp add: handle_def silence_tick_def recorder_stop_def Let_def keeps_refl
        split: option.splits)
qed (simp_all add: handle_def keeps_refl socket_onopen_def socket_onclose_def socket_onerror_def
      socket_close_def reconnect_timer_def connect_def unmount_def startRecording_def
      stopRecording_def startMediaRecorder_def stopMediaRecorder_def recorder_stop_def
      startMediaRecorder_record_def startMediaRecorder_catch_def ondataavailable_def onstop_def
      playNext_shift_def Let_def split: option.splits list.splits PlayTask.splits)

lemma messages_commit: "messages (commit s) = messages s"
  by (simp add: commit_def Let_def)

lemma keeps_run: "keeps_populated (messages s) (messages (run plat evs s))"
proof (induction evs arbitrary: s)
  case Nil
  show ?case by (simp add: keeps_refl)
next
  case (Cons ev evs)
  have "keeps_populated (messages s) (messages (step plat ev s))"
    by (simp add: step_def messages_commit keeps_handle)
  with Cons show ?case using keeps_trans by fastforce
qed

text \<open>
  C6. The backfill never changes a message that has audio data and never changes the
  length of the list; a second backfill after one that attached (non-empty) audio data
  changes nothing. In the hook as a whole, a message that has audio data stays the same
  message at the same place in every run of events; and when the queue has drained, a
  further drain leaves the messages alone, because the first one cleared the
  accumulator.
\<close>

theorem audio_attach_idempotent:
  "(\<forall>i < length prev. truthy (m_audioData (prev ! i)) \<longrightarrow> backfill c prev ! i = prev ! i)
   \<and> length (backfill c prev) = length prev
   \<and> (c \<noteq> [] \<longrightarrow> backfill c' (backfill c prev) = backfill c prev)
   \<and> (\<forall>i < length (messages s). truthy (m_audioData (messages s ! i)) \<longrightarrow>
         (\<forall>evs. i < length (messages (run plat evs s))
              \<and> messages (run plat evs s) ! i = messages s ! i))
   \<and> (audioQueueRef s = [] \<longrightarrow>
         messages (playNextInQueue plat (playNextInQueue plat s)) = messages (playNextInQueue plat s))"
proof -
  have "i < length (messages (run plat evs s)) \<and> messages (run plat evs s) ! i = messages s ! i"
    if "i < length (messages s)" and "truthy (m_audioData (messages s ! i))" for i evs
  proof -
    have "keeps_populated (messages s) (messages (run plat evs s))"
      by (rule keeps_run)
    with that show ?thesis
      by (simp add: keeps_populated_def)
  qed
  then show ?thesis
    by (simp add: backfill_length backfill_keeps_populated backfill_twice
        messages_playNextInQueue drained_playNextInQueue)
qed

theorem audio_attach_idempotent_witness:
  "truthy (m_audioData ([example_ai_message] ! 0))
   \<and> backfill ''WFla'' [example_ai_message] = [example_ai_message]
   \<and> backfill ''WFla'' (backfill ''QUJD'' [example_ai_message\<lparr>m_audioData := None\<rparr>])
       = [example_ai_message]
   \<and> audioQueueRef example_replied = []
   \<and> messages (playNextInQueue example_platform example_replied) = [example_ai_message]
   \<and> messages (playNextInQueue example_platform (playNextInQueue example_platform example_replied))
       = [example_ai_message]
   \<and> messages (run example_platform example_reply example_replied) ! 0 = example_ai_message"
proof -
  have t: "truthy (m_audioData ([example_ai_message] ! 0))"
    by (simp add: example_ai_message_def truthy_def)
  have m: "messages example_replied = [example_ai_message]"
    by (simp add: example_replied_def)
  have q: "audioQueueRef example_replied = []"
    by (simp add: example_replied_def mounted_def commit_def connect_def initial_def)
  have b: "backfill ''QUJD'' [example_ai_message\<lparr>m_audioData := None\<rparr>] = [example_ai_message]"
    by (simp add: backfill_def example_ai_message_def truthy_def)
  have l: "length (backfill ''WFla'' [example_ai_message]) = 1"
    by (simp add: backfill_length)
  note a = audio_attach_idempotent [of "[example_ai_message]" "''WFla''" "''WFla''"
      example_replied example_platform]
  have k: "backfill ''WFla'' [example_ai_message] ! 0 = example_ai_message"
    using a t by simp
  have w: "backfill ''WFla'' [example_ai_message] = [example_ai_message]"
    using k l by (cases "backfill ''WFla'' [example_ai_message]") simp_all
  have r: "messages (run example_platform example_reply example_replied) ! 0 = example_ai_message"
    using a [THEN conjunct2, THEN conjunct2, THEN conjunct2, THEN conjunct1, THEN spec, of 0] t m
    by simp
  have p: "messages (playNextInQueue example_platform example_replied) = [example_ai_message]"
    by (simp add: messages_playNextInQueue q m example_replied_def w)
  show ?thesis
    using a t q b w r p by simp
qed


subsection \<open>The end of a reply\<close>




subsection \<open>A denied microphone\<close>

lemma appState_mic_denied: "appState (startMediaRecorder_stream plat now denied s) = appState s"
  by (simp add: startMediaRecorder_stream_def startMediaRecorder_catch_def)

text \<open>
  C9 at a failing input. In a hands-free turn the reply has been played, the hook asks
  for the microphone again, and the request is denied: the \<^verbatim>\<open>catch\<close> block sets the
  error text and clears the ref of the conversation flag, but the application state is
  still \<open>speaking\<close>, not \<open>idle\<close>, the state variable \<open>isConversationActive\<close> is still
  set, and nothing is pending that could change the state.
\<close>

theorem microphone_denied_stays_speaking:
  "appState (run example_platform example_denied_turn mounted) = speaking
   \<and> error (run example_platform example_denied_turn mounted) = Some ERR_MICROPHONE
   \<and> \<not> isConversationActiveRef (run example_platform example_denied_turn mounted)
   \<and> isConversationActive (run example_platform example_denied_turn mounted)
   \<and> micRequests (run example_platform example_denied_turn mounted) = 0
   \<and> playTasks (run example_platform example_denied_turn mounted) = []
   \<and> sources (run example_platform example_denied_turn mounted) = []
   \<and> readers (run example_platform example_denied_turn mounted) = []
   \<and> \<not> silenceInterval (run example_platform example_denied_turn mounted)"
  by (simp add: example_denied_turn_def example_defs)


subsection \<open>Reconnecting\<close>

lemma run_append: "run plat (xs @ ys) s = run plat ys (run plat xs s)"
  by (induction xs arbitrary: s) simp_all

lemma conn_playNextInQueue:
  "isMounted (playNextInQueue plat s) = isMounted s"
  "reconnectAttemptRef (playNextInQueue plat s) = reconnectAttemptRef s"
  by (simp_all add: playNextInQueue_def Let_def startMediaRecorder_def
      playNext_resume_def playNext_shift_def split: option.splits list.splits)

lemma conn_queueAudio:
  "isMounted (queueAudio plat b s) = isMounted s"
  "reconnectAttemptRef (queueAudio plat b s) = reconnectAttemptRef s"
  by (simp_all add: queueAudio_def Let_def conn_playNextInQueue)

lemma conn_handleWebSocketMessage:
  "isMounted (handleWebSocketMessage plat clk d s) = isMounted s"
  "reconnectAttemptRef (handleWebSocketMessage plat clk d s) = reconnectAttemptRef s"
  by (cases "w_type d"; simp add: handleWebSocketMessage_def Let_def addMessage_def conn_queueAudio
        split: option.splits)+

lemma conn_commit: "conn_fields (commit s) = conn_fields s"
  by (simp add: commit_def Let_def conn_fields_def)

lemma conn_handle:
  assumes "isMounted s" and "ev \<noteq> SockOpen" and "ev \<noteq> Unmount"
  shows "conn_fields (handle plat ev s) =
     (True, reconnectAttemptRef s + (if ev = SockClose then 1 else 0))"
proof (cases ev)
  case (SockMessage clk d)
  with assms(1) show ?thesis
    by (cases d) (simp_all add: handle_def conn_fields_def conn_handleWebSocketMessage)
next
  case (DecodeDone i ok)
  with assms(1) show ?thesis
    by (simp add: handle_def decoded_def conn_fields_def conn_playNextInQueue
        split: option.splits PlayTask.splits)
next
  case (SourceEnded i)
  with assms(1) show ?thesis
    by (simp add: handle_def onended_def conn_fields_def conn_playNextInQueue split: option.splits)
next
  case (LoadEnd clk i)
  with assms(1) show ?thesis
    by (simp add: handle_def onloadend_def addMessage_def conn_fields_def
        split: option.splits ReaderTask.splits)
next
  case (MicAnswer now res)
  with assms(1) show ?thesis
    by (simp add: handle_def startMediaRecorder_stream_def startMediaRecorder_resume_def
        startMediaRecorder_record_def startMediaRecorder_catch_def Let_def conn_fields_def
        split: MicResult.splits option.splits)
next
  case (SilenceTick now d)
  with assms(1) show ?thesis
    by (simp add: handle_def silence_tick_def recorder_stop_def Let_def conn_fields_def
        split: option.splits)
next
  case SockOpen with assms(2) show ?thesis by simp
next
  case Unmount with assms(3) show ?thesis by simp
qed (use assms(1) in \<open>simp_all add: handle_def conn_fields_def socket_onclose_def socket_onerror_def
      socket_close_def reconnect_timer_def connect_def startRecording_def
      stopRecording_def startMediaRecorder_def stopMediaRecorder_def recorder_stop_def
      startMediaRecorder_record_def startMediaRecorder_catch_def ondataavailable_def onstop_def
      playNext_shift_def Let_def split: option.splits list.splits PlayTask.splits\<close>)

lemma conn_run:
  assumes "isMounted s" and "SockOpen \<notin> set evs" and "Unmount \<notin> set evs"
  shows "conn_fields (run plat evs s) = (True, reconnectAttemptRef s + closes evs)"
  using assms
proof (induction evs arbitrary: s)
  case Nil
  then show ?case by (simp add: conn_fields_def closes_def)
next
  case (Cons ev evs)
  from Cons.prems have ne: "ev \<noteq> SockOpen" "ev \<noteq> Unmount"
    by auto
  have c: "conn_fields (step plat ev s) =
      (True, reconnectAttemptRef s + (if ev = SockClose then 1 else 0))"
    unfolding step_def conn_commit by (rule conn_handle [OF Cons.prems(1) ne])
  then have m: "isMounted (step plat ev s)"
    and a: "reconnectAttemptRef (step plat ev s) = reconnectAttemptRef s + (if ev = SockClose then 1 else 0)"
    by (simp_all add: conn_fields_def)
  from Cons.IH [OF m] Cons.prems a show ?case
    by (simp add: closes_def)
qed

lemma close_step:
  "isMounted s \<Longrightarrow>
   reconnectAttemptRef (step plat SockClose s) = reconnectAttemptRef s + 1
   \<and> reconnectTimeoutRef (step plat SockClose s) = Some (min 5000 (500 * (reconnectAttemptRef s + 1)))"
  by (simp add: step_def handle_def socket_onclose_def commit_def Let_def)

lemma open_step:
  "isMounted s \<Longrightarrow> reconnectAttemptRef (step plat SockOpen s) = 0 \<and> isMounted (step plat SockOpen s)"
  by (simp add: step_def handle_def socket_onopen_def commit_def Let_def)

text \<open>
  C3. While the hook is mounted, take any events that contain no successful open (and
  no unmount), followed by a socket close. The attempt counter has gone up by one for
  every close, and the delay of the reconnect timer set by the last close is
  \<open>min 5000 (500 * N)\<close>, where \<open>N\<close> is the counter after that close. A successful open
  sets the counter to zero, so that after an open the \<open>N\<close>th close in a row sets the
  delay \<open>min 5000 (500 * N)\<close>, and the first one after it sets the delay 500.
\<close>

theorem reconnect_backoff:
  assumes "isMounted s" and "SockOpen \<notin> set evs" and "Unmount \<notin> set evs"
  shows "reconnectAttemptRef (run plat (evs @ [SockClose]) s) = reconnectAttemptRef s + closes evs + 1
    \<and> reconnectTimeoutRef (run plat (evs @ [SockClose]) s) =
        Some (min 5000 (500 * (reconnectAttemptRef s + closes evs + 1)))
    \<and> reconnectAttemptRef (step plat SockOpen s) = 0
    \<and> reconnectAttemptRef (run plat (SockOpen # evs @ [SockClose]) s) = closes evs + 1
    \<and> reconnectTimeoutRef (run plat (SockOpen # evs @ [SockClose]) s) =
        Some (min 5000 (500 * (closes evs + 1)))
    \<and> reconnectTimeoutRef (run plat [SockOpen, SockClose] s) = Some 500"
proof -
  have gen: "reconnectAttemptRef (run plat (evs @ [SockClose]) s') = reconnectAttemptRef s' + closes evs + 1
    \<and> reconnectTimeoutRef (run plat (evs @ [SockClose]) s') =
        Some (min 5000 (500 * (reconnectAttemptRef s' + closes evs + 1)))" if "isMounted s'" for s'
  proof -
    from conn_run [OF that assms(2,3), of plat]
    have "isMounted (run plat evs s')"
      and "reconnectAttemptRef (run plat evs s') = reconnectAttemptRef s' + closes evs"
      by (simp_all add: conn_fields_def)
    with close_step [of "run plat evs s'" plat] show ?thesis
      by (simp add: run_append)
  qed
  note o = open_step [OF assms(1), of plat]
  from o have m: "isMounted (step plat SockOpen s)" and z: "reconnectAttemptRef (step plat SockOpen s) = 0"
    by simp_all
  note g1 = gen [OF assms(1)]
  note g2 = gen [OF m]
  note c = close_step [OF m, of plat]
  from g1 have p1: "reconnectAttemptRef (run plat (evs @ [SockClose]) s) = reconnectAttemptRef s + closes evs + 1"
    and p2: "reconnectTimeoutRef (run plat (evs @ [SockClose]) s) =
        Some (min 5000 (500 * (reconnectAttemptRef s + closes evs + 1)))"
    by blast+
  from g2 z have p3: "reconnectAttemptRef (run plat (SockOpen # evs @ [SockClose]) s) = closes evs + 1"
    and p4: "reconnectTimeoutRef (run plat (SockOpen # evs @ [SockClose]) s) =
        Some (min 5000 (500 * (closes evs + 1)))"
    by simp_all
  from c z have p5: "reconnectTimeoutRef (run plat [SockOpen, SockClose] s) = Some 500"
    by simp
  from p1 p2 z p3 p4 p5 show ?thesis by blast
qed

theorem reconnect_backoff_witness:
  "isMounted mounted \<and> SockOpen \<notin> set example_outage \<and> Unmount \<notin> set example_outage
   \<and> closes example_outage = 2
   \<and> reconnectAttemptRef (run example_platform (SockOpen # example_outage @ [SockClose]) mounted) = 3
   \<and> reconnectTimeoutRef (run example_platform (SockOpen # example_outage @ [SockClose]) mounted)
       = Some 1500
   \<and> reconnectTimeoutRef (run example_platform (SockOpen # example_long_outage @ [SockClose]) mounted)
       = Some 5000
   \<and> reconnectTimeoutRef (run example_platform [SockOpen, SockClose] mounted) = Some 500"
proof -
  have h1: "isMounted mounted"
    by (simp add: mounted_def commit_def connect_def initial_def)
  have h2: "SockOpen \<notin> set example_outage" and h3: "Unmount \<notin> set example_outage"
    by (simp_all add: example_outage_def)
  have g2: "SockOpen \<notin> set example_long_outage" and g3: "Unmount \<notin> set example_long_outage"
    by (simp_all add: example_long_outage_def)
  have c: "closes example_outage = 2" "closes example_long_outage = 10"
    by (simp_all add: closes_def example_outage_def example_long_outage_def)
  show ?thesis
    using reconnect_backoff [OF h1 h2 h3, of example_platform]
      reconnect_backoff [OF h1 g2 g3, of example_platform] h1 h2 h3 c
    by simp
qed




subsection \<open>The silence detector\<close>



lemma recorderState_cong:
  "mediaRecorderRef s' = mediaRecorderRef s \<Longrightarrow> recorders s' = recorders s \<Longrightarrow>
   recorderState s' = recorderState s"
  by (simp add: recorderState_def cong: option.case_cong)

lemma recorderState_upd [simp]:
  "recorderState (s\<lparr>didAutoStopSegmentRef := a, appState := b\<rparr>) = recorderState s"
  "recorderState (s\<lparr>lastVoiceActivityAtRef := c\<rparr>) = recorderState s"
  "recorderState (s\<lparr>mediaStreamRef := d\<rparr>) = recorderState s"
  "recorderState (s\<lparr>appStateRef := e\<rparr>) = recorderState s"
  "recorderState (s\<lparr>silenceInterval := f, silenceDeps := g\<rparr>) = recorderState s"
  by (rule recorderState_cong; simp)+


















subsection \<open>Capture segments\<close>

lemma chunks_at_cong: "recorders s' = recorders s \<Longrightarrow> chunks_at i s' = chunks_at i s"
  by (simp add: chunks_at_def)

lemma chunks_at_update:
  "chunks_at i (s\<lparr>recorders := (recorders s)[j := r]\<rparr>) =
     (if i = j \<and> j < length (recorders s) then Some (r_chunks r) else chunks_at i s)"
  by (simp add: chunks_at_def at_index_nth nth_list_update)

lemma chunks_at_recorder_stop: "chunks_at i (recorder_stop s) = chunks_at i s"
  by (auto simp add: recorder_stop_def chunks_at_update split: option.splits)
     (auto simp add: chunks_at_def at_index_nth split: if_splits)

lemma recorders_playNextInQueue: "recorders (playNextInQueue plat s) = recorders s"
  by (simp add: playNextInQueue_def Let_def startMediaRecorder_def
      playNext_resume_def playNext_shift_def split: option.splits list.splits)

lemma recorders_handleWebSocketMessage: "recorders (handleWebSocketMessage plat clk d s) = recorders s"
  by (cases "w_type d"; simp add: handleWebSocketMessage_def Let_def addMessage_def queueAudio_def
        recorders_playNextInQueue split: option.splits)

lemma chunks_at_record:
  "chunks_at i s = Some cs \<Longrightarrow> chunks_at i (startMediaRecorder_record plat now s) = Some cs"
  by (auto simp add: startMediaRecorder_record_def startMediaRecorder_catch_def Let_def
      chunks_at_def at_index_nth nth_append split: if_splits)

lemma chunks_at_commit: "chunks_at i (commit s) = chunks_at i s"
  by (rule chunks_at_cong) (simp add: commit_def Let_def)

lemma chunks_handle:
  assumes "chunks_at i s = Some cs"
  shows "chunks_at i (handle plat ev s) = Some (cs @ chunks_of i [ev])"
proof (cases ev)
  case (SockMessage clk d)
  with assms show ?thesis
    by (cases d) (simp_all add: handle_def chunks_at_cong [OF recorders_handleWebSocketMessage])
next
  case (DecodeDone j ok)
  with assms show ?thesis
    by (simp add: handle_def decoded_def chunks_at_def recorders_playNextInQueue
        split: option.splits PlayTask.splits)
next
  case (SourceEnded j)
  with assms show ?thesis
    by (simp add: handle_def onended_def chunks_at_def recorders_playNextInQueue split: option.splits)
next
  case (LoadEnd clk j)
  with assms show ?thesis
    by (simp add: handle_def onloadend_def addMessage_def chunks_at_def
        split: option.splits ReaderTask.splits)
next
  case (MicAnswer now res)
  have "chunks_at i (startMediaRecorder_stream plat now res s') = Some cs"
    if "chunks_at i s' = Some cs" for s'
  proof -
    have c: "chunks_at i (s'\<lparr>mediaStreamRef := True\<rparr>) = Some cs"
      "chunks_at i (s'\<lparr>mediaStreamRef := True, audioContextRef := Some c\<rparr>) = Some cs" for c
      using that by (simp_all add: chunks_at_def)
    show ?thesis
      using that c
      by (simp add: startMediaRecorder_stream_def startMediaRecorder_resume_def
          startMediaRecorder_catch_def Let_def chunks_at_record
          split: MicResult.splits option.splits)
         (simp_all add: chunks_at_def)
  qed
  moreover have "chunks_at i (s\<lparr>micRequests := micRequests s - 1\<rparr>) = Some cs"
    using assms by (simp add: chunks_at_def)
  ultimately show ?thesis
    using MicAnswer assms by (simp add: handle_def)
next
  case (CaptureResumed now)
  have "chunks_at i (s\<lparr>captureResumes := captureResumes s - 1, audioContextRef := Some running\<rparr>)
      = Some cs"
    using assms by (simp add: chunks_at_def)
  with CaptureResumed assms show ?thesis
    by (simp add: handle_def chunks_at_record)
next
  case (SilenceTick now d)
  have "chunks_at i (snd (silence_tick now d s)) = chunks_at i s"
  proof -
    have r: "chunks_at i (recorder_stop (s\<lparr>didAutoStopSegmentRef := True, appState := processing\<rparr>))
        = chunks_at i s"
      by (simp add: chunks_at_recorder_stop) (simp add: chunks_at_def)
    show ?thesis
      by (simp add: silence_tick_def Let_def split: option.splits)
         (auto simp add: chunks_at_def r [unfolded chunks_at_def])
  qed
  with SilenceTick assms show ?thesis
    by (simp add: handle_def)
next
  case (DataAvailable j b)
  with assms show ?thesis
    by (auto simp add: handle_def ondataavailable_def chunks_at_update split: option.splits)
       (auto simp add: chunks_at_def at_index_nth split: if_splits)
next
  case (RecorderStopped j)
  with assms show ?thesis
    by (auto simp add: handle_def onstop_def chunks_at_def at_index_nth nth_list_update
        split: option.splits if_splits)
next
  case StopRecording
  have a: "chunks_at i (x\<lparr>mediaStreamRef := False\<rparr>) = chunks_at i x" for x
    by (simp add: chunks_at_def)
  have "chunks_at i (stopMediaRecorder s') = chunks_at i s'" for s'
    by (simp add: stopMediaRecorder_def Let_def a chunks_at_recorder_stop split: option.splits)
  with StopRecording assms show ?thesis
    by (simp add: handle_def stopRecording_def) (simp add: chunks_at_def)
qed (use assms in \<open>simp_all add: handle_def chunks_at_def socket_onopen_def socket_onclose_def
      socket_onerror_def socket_close_def reconnect_timer_def connect_def unmount_def
      startRecording_def startMediaRecorder_def playNext_shift_def Let_def
      split: option.splits list.splits PlayTask.splits\<close>)


lemma chunks_run:
  "chunks_at i s = Some cs \<Longrightarrow> chunks_at i (run plat evs s) = Some (cs @ chunks_of i evs)"
proof (induction evs arbitrary: s cs)
  case Nil
  then show ?case by simp
next
  case (Cons ev evs)
  from Cons.prems have "chunks_at i (step plat ev s) = Some (cs @ chunks_of i [ev])"
    by (simp add: step_def chunks_at_commit chunks_handle)
  from Cons.IH [OF this] show ?case by simp
qed

lemma stop_event:
  assumes "chunks_at i s = Some cs"
  shows "sent (step plat (RecorderStopped i) s) = sent s"
    and "readers (step plat (RecorderStopped i) s) =
           readers s @ (if cs = [] then [] else [SendAudio (concat cs)])"
  using assms
  by (auto simp add: step_def commit_def Let_def handle_def onstop_def chunks_at_def Blob_def
      at_index_nth split: option.splits if_splits)

lemma loadend_event:
  assumes "at_index (readers s) j = Some (SendAudio b)"
  shows "sent (step plat (LoadEnd clk j) s) =
           sent s @ (if socketRef s = Some OPEN
                     then [audio_complete (Some (base64 b)) ''audio/webm''] else [])"
    and "readers (step plat (LoadEnd clk j) s) = remove_at j (readers s)"
  using assms
  by (simp_all add: step_def commit_def Let_def handle_def onloadend_def encodeBlob_base64)

lemma sent_playNextInQueue: "sent (playNextInQueue plat s) = sent s"
  by (simp add: playNextInQueue_def Let_def startMediaRecorder_def
      playNext_resume_def playNext_shift_def split: option.splits list.splits)

lemma sent_handleWebSocketMessage: "sent (handleWebSocketMessage plat clk d s) = sent s"
  by (cases "w_type d"; simp add: handleWebSocketMessage_def Let_def addMessage_def queueAudio_def
        sent_playNextInQueue split: option.splits)

lemma sent_other:
  assumes "\<And>clk j. ev \<noteq> LoadEnd clk j"
  shows "sent (step plat ev s) = sent s"
proof -
  have "sent (handle plat ev s) = sent s"
  proof (cases ev)
    case (SockMessage clk d)
    then show ?thesis by (cases d) (simp_all add: handle_def sent_handleWebSocketMessage)
  next
    case (DecodeDone j ok)
    then show ?thesis
      by (simp add: handle_def decoded_def sent_playNextInQueue split: option.splits PlayTask.splits)
  next
    case (SourceEnded j)
    then show ?thesis
      by (simp add: handle_def onended_def sent_playNextInQueue split: option.splits)
  next
    case (LoadEnd clk j)
    with assms show ?thesis by blast
  next
    case (MicAnswer now res)
    then show ?thesis
      by (simp add: handle_def startMediaRecorder_stream_def startMediaRecorder_resume_def
          startMediaRecorder_record_def startMediaRecorder_catch_def Let_def
          split: MicResult.splits option.splits)
  next
    case (SilenceTick now d)
    then show ?thesis
      by (simp add: handle_def silence_tick_def recorder_stop_def Let_def split: option.splits)
  qed (simp_all add: handle_def socket_onopen_def socket_onclose_def socket_onerror_def
        socket_close_def reconnect_timer_def connect_def unmount_def startRecording_def
        stopRecording_def startMediaRecorder_def stopMediaRecorder_def recorder_stop_def
        startMediaRecorder_record_def startMediaRecorder_catch_def ondataavailable_def onstop_def
        playNext_shift_def Let_def split: option.splits list.splits PlayTask.splits)
  then show ?thesis
    by (simp add: step_def commit_def Let_def)
qed

lemma sendTasks_append: "sendTasks (xs @ ys) = sendTasks xs @ sendTasks ys"
  by (induction xs rule: sendTasks.induct) simp_all

lemma sendTasks_remove: "length (sendTasks (remove_at j ts)) \<le> length (sendTasks ts)"
proof (induction ts arbitrary: j rule: sendTasks.induct)
  case 1
  show ?case by (simp add: remove_at_def)
next
  case (2 b ts)
  from "2.IH" [of "j - 1"] show ?case by (cases j) (simp_all add: remove_at_def)
next
  case (3 tx b ts)
  from "3.IH" [of "j - 1"] show ?case by (cases j) (simp_all add: remove_at_def)
qed

lemma readers_playNextInQueue: "readers (playNextInQueue plat s) = readers s"
  by (simp add: playNextInQueue_def Let_def startMediaRecorder_def
      playNext_resume_def playNext_shift_def split: option.splits list.splits)

lemma sendTasks_handleWebSocketMessage:
  "sendTasks (readers (handleWebSocketMessage plat clk d s)) = sendTasks (readers s)"
  by (cases "w_type d"; simp add: handleWebSocketMessage_def Let_def addMessage_def queueAudio_def
        readers_playNextInQueue sendTasks_append split: option.splits)

lemma sendTasks_other:
  assumes "\<And>j. ev \<noteq> RecorderStopped j"
  shows "length (sendTasks (readers (step plat ev s))) \<le> length (sendTasks (readers s))"
proof -
  have "length (sendTasks (readers (handle plat ev s))) \<le> length (sendTasks (readers s))"
  proof (cases ev)
    case (SockMessage clk d)
    then show ?thesis by (cases d) (simp_all add: handle_def sendTasks_handleWebSocketMessage)
  next
    case (DecodeDone j ok)
    then show ?thesis
      by (simp add: handle_def decoded_def readers_playNextInQueue
          split: option.splits PlayTask.splits)
  next
    case (SourceEnded j)
    then show ?thesis
      by (simp add: handle_def onended_def readers_playNextInQueue split: option.splits)
  next
    case (LoadEnd clk j)
    then show ?thesis
      by (simp add: handle_def onloadend_def addMessage_def sendTasks_remove
          split: option.splits ReaderTask.splits)
  next
    case (RecorderStopped j)
    with assms show ?thesis by blast
  next
    case (MicAnswer now res)
    then show ?thesis
      by (simp add: handle_def startMediaRecorder_stream_def startMediaRecorder_resume_def
          startMediaRecorder_record_def startMediaRecorder_catch_def Let_def
          split: MicResult.splits option.splits)
  next
    case (SilenceTick now d)
    then show ?thesis
      by (simp add: handle_def silence_tick_def recorder_stop_def Let_def split: option.splits)
  qed (simp_all add: handle_def socket_onopen_def socket_onclose_def socket_onerror_def
        socket_close_def reconnect_timer_def connect_def unmount_def startRecording_def
        stopRecording_def startMediaRecorder_def stopMediaRecorder_def recorder_stop_def
        startMediaRecorder_record_def startMediaRecorder_catch_def ondataavailable_def
        playNext_shift_def Let_def split: option.splits list.splits PlayTask.splits)
  then show ?thesis
    by (simp add: step_def commit_def Let_def)
qed

text \<open>
  C1, as the code has it. Take a recorder whose array of chunks is empty, as it is when
  the recorder has just been made. In every run of events its array holds the chunks of
  a size above zero that it has delivered, in the order of delivery. When the recorder
  then reports its stop, nothing is sent at that point: if the array is empty nothing
  more happens, and otherwise exactly one reader is started, on the concatenation of
  the chunks. When a reader of this kind finishes, it is removed, and exactly one
  \<^verbatim>\<open>audio_complete\<close> frame with the base64 text of its blob and the mime type
  \<^verbatim>\<open>audio/webm\<close> is sent if the socket is open then; if the socket is not open, nothing
  is sent. No other event sends a frame, and no event other than the stop of a recorder
  starts such a reader.
\<close>

theorem audio_complete_per_segment:
  assumes "chunks_at i s = Some []"
  shows "(\<forall>evs. chunks_at i (run plat evs s) = Some (chunks_of i evs))
    \<and> (\<forall>evs. sent (step plat (RecorderStopped i) (run plat evs s)) = sent (run plat evs s)
           \<and> readers (step plat (RecorderStopped i) (run plat evs s)) =
               readers (run plat evs s) @
                 (if chunks_of i evs = [] then [] else [SendAudio (concat (chunks_of i evs))]))
    \<and> (\<forall>clk j b s'. at_index (readers s') j = Some (SendAudio b) \<longrightarrow>
           sent (step plat (LoadEnd clk j) s') =
             sent s' @ (if socketRef s' = Some OPEN
                        then [audio_complete (Some (base64 b)) ''audio/webm''] else [])
         \<and> readers (step plat (LoadEnd clk j) s') = remove_at j (readers s'))
    \<and> (\<forall>ev s'. (\<forall>clk j. ev \<noteq> LoadEnd clk j) \<longrightarrow> sent (step plat ev s') = sent s')
    \<and> (\<forall>ev s'. (\<forall>j. ev \<noteq> RecorderStopped j) \<longrightarrow>
           length (sendTasks (readers (step plat ev s'))) \<le> length (sendTasks (readers s')))"
proof -
  have a: "chunks_at i (run plat evs s) = Some (chunks_of i evs)" for evs
    using chunks_run [OF assms, of plat evs] by simp
  have b: "sent (step plat (RecorderStopped i) (run plat evs s)) = sent (run plat evs s)
           \<and> readers (step plat (RecorderStopped i) (run plat evs s)) =
               readers (run plat evs s) @
                 (if chunks_of i evs = [] then [] else [SendAudio (concat (chunks_of i evs))])"
    for evs
    using stop_event [OF a [of evs], of plat] by simp
  from a b show ?thesis
    by (simp add: loadend_event sent_other sendTasks_other)
qed

theorem audio_complete_per_segment_witness:
  "chunks_at 0 example_capture = Some []
   \<and> chunks_of 0 example_chunks = [[1, 2], [3]]
   \<and> readers (run example_platform (example_chunks @ [RecorderStopped 0]) example_capture)
       = [SendAudio [1, 2, 3]]
   \<and> sent (run example_platform (example_chunks @ [RecorderStopped 0]) example_capture) = []
   \<and> sent (run example_platform (example_chunks @ [RecorderStopped 0, LoadEnd example_clock 0])
        example_capture) = [audio_complete (Some ''AQID'') ''audio/webm'']
   \<and> readers (run example_platform (example_chunks @ [RecorderStopped 0, LoadEnd example_clock 0])
        example_capture) = []"
proof -
  have h: "chunks_at 0 example_capture = Some []"
    by (simp add: chunks_at_def example_capture_def example_defs)
  have c: "chunks_of 0 example_chunks = [[1, 2], [3]]"
    by (simp add: example_chunks_def)
  have r0: "readers (run example_platform example_chunks example_capture) = []"
    and s0: "sent (run example_platform example_chunks example_capture) = []"
    by (simp_all add: example_chunks_def example_capture_def example_defs)
  note t = audio_complete_per_segment [OF h, of example_platform]
  from t [THEN conjunct2, THEN conjunct1, THEN spec, of example_chunks] c r0 s0
  have r1: "readers (step example_platform (RecorderStopped 0)
        (run example_platform example_chunks example_capture)) = [SendAudio [1, 2, 3]]"
    and s1: "sent (step example_platform (RecorderStopped 0)
        (run example_platform example_chunks example_capture)) = []"
    by simp_all
  have o: "socketRef (step example_platform (RecorderStopped 0)
        (run example_platform example_chunks example_capture)) = Some OPEN"
    by (simp add: example_chunks_def example_capture_def example_defs at_index_nth)
  have b: "base64 [1, 2, 3] = ''AQID''"
    by (simp add: b64_digit_def b64_alphabet_def)
  from t [THEN conjunct2, THEN conjunct2, THEN conjunct1, THEN spec [of _ example_clock],
      THEN spec [of _ "0::nat"], THEN spec [of _ "[1, 2, 3]"],
      THEN spec [of _ "step example_platform (RecorderStopped 0)
        (run example_platform example_chunks example_capture)"]] r1 s1 o b
  have s2: "sent (step example_platform (LoadEnd example_clock 0)
        (step example_platform (RecorderStopped 0)
          (run example_platform example_chunks example_capture)))
      = [audio_complete (Some ''AQID'') ''audio/webm'']"
    and r2: "readers (step example_platform (LoadEnd example_clock 0)
        (step example_platform (RecorderStopped 0)
          (run example_platform example_chunks example_capture))) = []"
    by (simp_all add: remove_at_def)
  from h c r1 s1 s2 r2 show ?thesis
    by (simp add: run_append)
qed

text \<open>
  The claim as written fails when the socket is not open at the time the reader
  finishes: two chunks were captured, and no frame is sent, then or later.
\<close>

theorem audio_complete_counterexample:
  "chunks_of 0 example_chunks = [[1, 2], [3]]
   \<and> chunks_at 0 (run example_platform example_chunks example_capture_offline)
       = Some [[1, 2], [3]]
   \<and> sent (run example_platform (example_chunks @ [RecorderStopped 0, LoadEnd example_clock 0])
        example_capture_offline) = []
   \<and> readers (run example_platform (example_chunks @ [RecorderStopped 0, LoadEnd example_clock 0])
        example_capture_offline) = []"
  by (simp add: example_chunks_def example_capture_offline_def chunks_at_def example_defs
      at_index_nth)

end
